theory Spec2Isabelle
  imports Complex_Main
begin

section \<open>JavaScript values\<close>

text \<open>
  Strings are byte strings (\<open>char list\<close>); every character the code inspects
  (\<open>|\<close>, the control character 0x1F, digits, ASCII white space) is a single ASCII
  character. Durations and clock readings are rationals (milliseconds or seconds as in
  the source): fractional budgets are covered, the rounding of the clock arithmetic is
  not. HTTP status codes are integers.
\<close>

subsection \<open>Numbers and their string form\<close>

text \<open>
  A JavaScript number. The code never calculates with the numbers it is given as
  parameter values or finds in a response: it converts them to strings and tests them
  for truthiness. A finite number other than zero is therefore given by what
  \<open>Number::toString\<close> determines of it (ECMAScript, radix 10): the sign, and the
  integers \<open>s\<close> and \<open>n\<close> such that \<open>s\<close> has \<open>k\<close> decimal digits, \<open>k\<close> as small as
  possible, and \<open>s * 10 ^ (n - k)\<close> converts to the number. Different numbers differ in them.
  \<open>Finite negative s n\<close> is that number, \<open>Infinity negative\<close> is \<open>Infinity\<close> or
  \<open>-Infinity\<close>, and \<open>Zero\<close> stands for both zeros, which the code cannot tell apart
  (both are falsy, and both have the string form \<open>0\<close>). Which pairs \<open>s\<close>, \<open>n\<close>
  belong to a double is not modelled.
\<close>

datatype number = NaN | Infinity bool | Zero | Finite bool nat int

definition digit_char :: "nat \<Rightarrow> char" where
  "digit_char d = ''0123456789'' ! d"

text \<open>The decimal digits of a natural number, most significant first.\<close>

fun digits :: "nat \<Rightarrow> string" where
  "digits n = (if n < 10 then [digit_char n] else digits (n div 10) @ [digit_char (n mod 10)])"

declare digits.simps [simp del]

text \<open>The exponent of the scientific notation: \<open>e\<close>, the sign, and the digits of
  the absolute value.\<close>

definition exponent_part :: "int \<Rightarrow> string" where
  "exponent_part e = CHR ''e'' # (if e < 0 then CHR ''-'' else CHR ''+'') # digits (nat \<bar>e\<bar>)"

text \<open>\<open>Number::toString\<close> for a positive finite number with the digits \<open>s\<close> and
  the exponent \<open>n\<close>: the digits followed by zeros when \<open>k \<le> n \<le> 21\<close>; with a decimal
  point inside when \<open>0 < n \<le> 21\<close>; after \<open>0.\<close> and zeros when \<open>-6 < n \<le> 0\<close>; and in
  scientific notation otherwise.\<close>

definition String_finite :: "nat \<Rightarrow> int \<Rightarrow> string" where
  "String_finite s n =
     (let ds = digits s; k = int (length ds)
      in if k \<le> n \<and> n \<le> 21 then ds @ replicate (nat (n - k)) (CHR ''0'')
         else if 0 < n \<and> n \<le> 21 then take (nat n) ds @ ''.'' @ drop (nat n) ds
         else if - 6 < n \<and> n \<le> 0 then ''0.'' @ replicate (nat (- n)) (CHR ''0'') @ ds
         else if k = 1 then ds @ exponent_part (n - 1)
         else take 1 ds @ ''.'' @ drop 1 ds @ exponent_part (n - 1))"

text \<open>\<open>String(value)\<close> for a number.\<close>

fun String_number :: "number \<Rightarrow> string" where
  "String_number NaN = ''NaN''"
| "String_number Zero = ''0''"
| "String_number (Infinity negative) = (if negative then ''-Infinity'' else ''Infinity'')"
| "String_number (Finite negative s n) =
     (if negative then CHR ''-'' # String_finite s n else String_finite s n)"

text \<open>The number that an integer literal denotes. The digits of an integer that a
  double holds exactly and prints in full (every integer below \<open>2 ^ 53\<close> in absolute value)
  are its decimal digits without the zeros at the end.\<close>

fun strip_zeros :: "nat \<Rightarrow> nat" where
  "strip_zeros n = (if n \<noteq> 0 \<and> n mod 10 = 0 then strip_zeros (n div 10) else n)"

declare strip_zeros.simps [simp del]

definition ofInt :: "int \<Rightarrow> number" where
  "ofInt i =
     (if i = 0 then Zero
      else Finite (i < 0) (strip_zeros (nat \<bar>i\<bar>)) (int (length (digits (nat \<bar>i\<bar>)))))"


subsection \<open>Reading a string form back\<close>









subsection \<open>JSON values and parameter values\<close>

text \<open>A decoded JSON value. An object is the list of its own properties in the order
  \<open>Object.entries\<close> yields them; its keys are distinct.\<close>

datatype json =
    JNull
  | JBool bool
  | JNum number
  | JStr string
  | JArr "json list"
  | JObj "(string \<times> json) list"

text \<open>An element of an array or a set given as a parameter value: the documented
  element types are string and number.\<close>

datatype scalar = SStr string | SNum number

text \<open>A raw parameter value as \<open>request\<close> accepts it. \<open>PSet\<close> carries the
  elements of the \<open>Set\<close> in iteration order. \<open>PToken\<close> is the private symbol
  \<open>TOKEN_PLACEHOLDER\<close>; \<open>POther\<close> is any other value (an object).\<close>

datatype pvalue =
    PStr string
  | PNum number
  | PBool bool
  | PNull
  | PUndefined
  | PArr "scalar list"
  | PSet "scalar list"
  | PToken
  | POther json

text \<open>A value of the transformed parameter object handed to the transport: a string,
  or one of the values \<open>transformParamScalar\<close> returns unmodified. \<open>WUndefined\<close>
  only arises for a token that could not be fetched.\<close>

datatype wire =
    WStr string
  | WToken
  | WOther json
  | WUndefined

type_synonym params = "string \<rightharpoonup> pvalue"
type_synonym wparams = "string \<rightharpoonup> wire"

fun String_scalar :: "scalar \<Rightarrow> string" where
  "String_scalar (SStr s) = s"
| "String_scalar (SNum n) = String_number n"

subsection \<open>Joining and splitting\<close>

text \<open>\<open>Array.prototype.join\<close> on the string forms of the elements.\<close>

fun join :: "string \<Rightarrow> string list \<Rightarrow> string" where
  "join sep [] = []"
| "join sep [x] = x"
| "join sep (x # y # ys) = x @ sep @ join sep (y # ys)"

text \<open>\<open>String.prototype.split\<close> with a separator of one character.\<close>

fun split_on :: "char \<Rightarrow> string \<Rightarrow> string list" where
  "split_on c [] = [[]]"
| "split_on c (x # xs) =
     (if x = c then [] # split_on c xs
      else (case split_on c xs of y # ys \<Rightarrow> (x # y) # ys | [] \<Rightarrow> [[x]]))"

section \<open>Parameter normalizer\<close>

definition US :: char where
  "US = CHR 0x1F"

definition includes_pipe :: "scalar \<Rightarrow> bool" where
  "includes_pipe element = (CHR ''|'' \<in> set (String_scalar element))"

definition transformParamArray :: "scalar list \<Rightarrow> string" where
  "transformParamArray v =
     (if list_ex includes_pipe v
      then US # join [US] (map String_scalar v)
      else join ''|'' (map String_scalar v))"

fun transformParamScalar :: "pvalue \<Rightarrow> wire option" where
  "transformParamScalar (PNum n) = Some (WStr (String_number n))"
| "transformParamScalar (PBool True) = Some (WStr [])"
| "transformParamScalar (PBool False) = None"
| "transformParamScalar PNull = None"
| "transformParamScalar PUndefined = None"
| "transformParamScalar (PStr s) = Some (WStr s)"
| "transformParamScalar PToken = Some WToken"
| "transformParamScalar (POther j) = Some (WOther j)"
| "transformParamScalar (PArr v) = None"
| "transformParamScalar (PSet v) = None"

text \<open>The last two equations of \<open>transformParamScalar\<close> are never used:
  \<open>transformParamValue\<close> sends arrays and sets to \<open>transformParamArray\<close>.\<close>

fun transformParamValue :: "pvalue \<Rightarrow> wire option" where
  "transformParamValue (PSet v) = Some (WStr (transformParamArray v))"
| "transformParamValue (PArr v) = Some (WStr (transformParamArray v))"
| "transformParamValue v = transformParamScalar v"

text \<open>The loop over \<open>Object.entries(params)\<close> sets a key of the result exactly when
  the transformed value is not \<open>undefined\<close> (\<open>None\<close>).\<close>

definition transformParams :: "params \<Rightarrow> wparams" where
  "transformParams ps = (\<lambda>key. case ps key of None \<Rightarrow> None | Some v \<Rightarrow> transformParamValue v)"

section \<open>Response classifier\<close>

subsection \<open>Reading JSON values the way JavaScript does\<close>

text \<open>Truthiness of a JSON value.\<close>

fun truthy :: "json \<Rightarrow> bool" where
  "truthy JNull = False"
| "truthy (JBool b) = b"
| "truthy (JNum n) = (n \<noteq> Zero \<and> n \<noteq> NaN)"
| "truthy (JStr s) = (s \<noteq> [])"
| "truthy (JArr xs) = True"
| "truthy (JObj kvs) = True"

text \<open>\<open>value[key]\<close> for a value that is not \<open>null\<close>: \<open>None\<close> is \<open>undefined\<close>.
  The keys the code reads (\<open>warnings\<close>, \<open>continue\<close>, \<open>code\<close>, \<open>query\<close>,
  \<open>tokens\<close>, a token name, ...) are neither \<open>length\<close> nor an index, so only an
  object can have them.\<close>

fun getProp :: "json \<Rightarrow> string \<Rightarrow> json option" where
  "getProp (JObj kvs) key = map_of kvs key"
| "getProp v key = None"

text \<open>\<open>object[key] = value\<close> on the property list of an object: an existing key keeps
  its place.\<close>

fun setProp :: "string \<Rightarrow> json \<Rightarrow> (string \<times> json) list \<Rightarrow> (string \<times> json) list" where
  "setProp key v [] = [(key, v)]"
| "setProp key v ((k, x) # kvs) = (if k = key then (k, v) # kvs else (k, x) # setProp key v kvs)"

text \<open>\<open>String(value)\<close>, with \<open>None\<close> for \<open>undefined\<close>. Inside an array, \<open>null\<close>
  is joined as the empty string.\<close>

fun String_json :: "json \<Rightarrow> string" where
  "String_json JNull = ''null''"
| "String_json (JBool b) = (if b then ''true'' else ''false'')"
| "String_json (JNum n) = String_number n"
| "String_json (JStr s) = s"
| "String_json (JArr xs) = join '','' (map (\<lambda>x. if x = JNull then [] else String_json x) xs)"
| "String_json (JObj kvs) = ''[object Object]''"

definition String_value :: "json option \<Rightarrow> string" where
  "String_value v = (case v of None \<Rightarrow> ''undefined'' | Some j \<Rightarrow> String_json j)"

text \<open>\<open>Object.entries(value)\<close> of a value that is not \<open>null\<close>: the properties of an
  object, the indexed elements of an array, the indexed characters of a string, nothing
  for a number or a boolean. An index is a property key, the decimal numeral of its
  position.\<close>

definition indexed :: "'a list \<Rightarrow> (string \<times> 'a) list" where
  "indexed xs = zip (map digits [0 ..< length xs]) xs"

fun entries :: "json \<Rightarrow> (string \<times> json) list" where
  "entries (JObj kvs) = kvs"
| "entries (JArr xs) = indexed xs"
| "entries (JStr s) = indexed (map (\<lambda>c. JStr [c]) s)"
| "entries v = []"

subsection \<open>Errors and warnings\<close>

text \<open>What a call can throw. \<open>ApiErrors\<close> carries the error objects of the response.
  \<open>TransportError\<close> is a rejection by the transport.\<close>

datatype error =
    TypeError
  | UnknownMethod string
  | HttpStatus int
  | ApiErrors "json list"
  | TransportError

text \<open>What a warn handler can be called with. \<open>MaxRetriesWarning\<close> is the plain
  \<open>Error\<close> about the \<open>maxRetries\<close> option.\<close>

datatype warning =
    ApiWarnings "json list"
  | DefaultUserAgentWarning
  | MaxRetriesWarning

definition is_prefix :: "string \<Rightarrow> string \<Rightarrow> bool" where
  "is_prefix p s = (take (length p) s = p)"

definition is_suffix :: "string \<Rightarrow> string \<Rightarrow> bool" where
  "is_suffix p s = (length p \<le> length s \<and> drop (length s - length p) s = p)"

text \<open>The regular expression
  \<^verbatim>\<open>/^This result was truncated because it would otherwise  ?be larger than the limit of .* bytes$/\<close>:
  the optional second space is decided by the next character, and \<open>.\<close> matches
  anything but a line terminator (line feed and carriage return here).\<close>

definition TRUNCATED_RESULT :: "string \<Rightarrow> bool" where
  "TRUNCATED_RESULT s =
     (let p1 = ''This result was truncated because it would otherwise '';
          p2 = ''be larger than the limit of '';
          r1 = drop (length p1) s;
          r2 = (if is_prefix '' '' r1 then drop 1 r1 else r1);
          r3 = drop (length p2) r2
      in is_prefix p1 s \<and> is_prefix p2 r2 \<and> is_suffix '' bytes'' r3
         \<and> CHR 0x0A \<notin> set r3 \<and> CHR 0x0D \<notin> set r3)"

text \<open>\<open>notTruncatedResultWarning\<close>; \<open>None\<close> is the \<open>TypeError\<close> of reading a
  property of \<open>null\<close>.\<close>

definition notTruncatedResultWarning :: "json \<Rightarrow> bool option" where
  "notTruncatedResultWarning warning =
     (if warning = JNull then None
      else (case getProp warning ''code'' of
              Some c \<Rightarrow>
                if truthy c then Some (c \<noteq> JStr ''truncatedresult'')
                else Some (\<not> TRUNCATED_RESULT (String_value
                       (case getProp warning ''warnings'' of
                          Some m \<Rightarrow> if truthy m then Some m else getProp warning ''*''
                        | None \<Rightarrow> getProp warning ''*'')))
            | None \<Rightarrow>
                Some (\<not> TRUNCATED_RESULT (String_value
                       (case getProp warning ''warnings'' of
                          Some m \<Rightarrow> if truthy m then Some m else getProp warning ''*''
                        | None \<Rightarrow> getProp warning ''*'')))))"

text \<open>\<open>responseErrors\<close> returns the value it finds: the one-element array around
  \<open>error\<close>, the member \<open>errors\<close> as it is, or the empty array. The operator \<open>in\<close>
  throws on a body that is not an object (an array has neither key).\<close>

definition responseErrors :: "json \<Rightarrow> error + json" where
  "responseErrors response =
     (case response of
        JObj kvs \<Rightarrow>
          (case map_of kvs ''error'' of
             Some e \<Rightarrow> Inr (JArr [e])
           | None \<Rightarrow>
               (case map_of kvs ''errors'' of
                  Some es \<Rightarrow> Inr es
                | None \<Rightarrow> Inr (JArr [])))
      | JArr xs \<Rightarrow> Inr (JArr [])
      | _ \<Rightarrow> Inl TypeError)"

text \<open>\<open>errors.some(({ code }) => code === c)\<close>: elements are visited in order up to the
  first hit; destructuring \<open>null\<close> throws, and so does calling \<open>some\<close> on a value
  that is not an array.\<close>

fun someCode :: "string \<Rightarrow> json list \<Rightarrow> error + bool" where
  "someCode c [] = Inr False"
| "someCode c (e # es) =
     (if e = JNull then Inl TypeError
      else if getProp e ''code'' = Some (JStr c) then Inr True
      else someCode c es)"

definition hasErrorCode :: "string \<Rightarrow> json \<Rightarrow> error + bool" where
  "hasErrorCode c errors = (case errors of JArr es \<Rightarrow> someCode c es | _ \<Rightarrow> Inl TypeError)"

text \<open>\<open>if ( errors.length > 0 ) throw new ApiErrors( errors )\<close>: the constructor reads
  \<open>errors[0].code\<close>. For an \<open>errors\<close> member that is not an array (outside the API's
  envelope) the model reports \<open>TypeError\<close>, although JavaScript would read the
  \<open>length\<close> of a string or an object there.\<close>

definition throwIfErrors :: "json \<Rightarrow> error option" where
  "throwIfErrors errors =
     (case errors of
        JArr [] \<Rightarrow> None
      | JArr (e # es) \<Rightarrow> if e = JNull then Some TypeError else Some (ApiErrors (e # es))
      | _ \<Rightarrow> Some TypeError)"

text \<open>\<open>warning.module = module\<close> in strict mode: sets the property of an object and
  throws (\<open>None\<close>) on \<open>null\<close> and on primitives. On an array the assignment adds a
  property that the element list does not show.\<close>

fun tagModule :: "string \<times> json \<Rightarrow> json option" where
  "tagModule (modname, JObj kvs) = Some (JObj (setProp ''module'' (JStr modname) kvs))"
| "tagModule (modname, JArr xs) = Some (JArr xs)"
| "tagModule (modname, v) = None"

text \<open>\<open>if ( bcWarnings[ 0 ][ 0 ] === 'main' ) bcWarnings.push( bcWarnings.shift() )\<close>;
  \<open>None\<close> is the \<open>TypeError\<close> of reading \<open>bcWarnings[0][0]\<close> when there is no entry.\<close>

fun mainToEnd :: "(string \<times> json) list \<Rightarrow> (string \<times> json) list option" where
  "mainToEnd [] = None"
| "mainToEnd ((modname, warning) # rest) =
     (if modname = ''main'' then Some (rest @ [(modname, warning)])
      else Some ((modname, warning) # rest))"

text \<open>\<open>responseWarnings\<close> returns the list of warnings and, since tagging the
  warnings of a mapping assigns to the objects inside the response, the response as it
  is afterwards. It is called on a body that \<open>responseErrors\<close> has accepted (an object
  or an array); reading \<open>warnings\<close> of \<open>null\<close> throws.\<close>

definition responseWarnings :: "json \<Rightarrow> error + (json list \<times> json)" where
  "responseWarnings response =
     (if response = JNull then Inl TypeError
      else (case getProp response ''warnings'' of
              None \<Rightarrow> Inr ([], response)
            | Some warnings \<Rightarrow>
                if \<not> truthy warnings then Inr ([], response)
                else (case warnings of
                        JArr ws \<Rightarrow> Inr (ws, response)
                      | _ \<Rightarrow>
                          (case mainToEnd (entries warnings) of
                             None \<Rightarrow> Inl TypeError
                           | Some bcWarnings \<Rightarrow>
                               (case those (map tagModule bcWarnings) of
                                  None \<Rightarrow> Inl TypeError
                                | Some ws \<Rightarrow>
                                    Inr (ws,
                                      JObj (setProp ''warnings''
                                        (JObj (map (\<lambda>(modname, warning).
                                           (modname, case tagModule (modname, warning) of
                                                      Some t \<Rightarrow> t | None \<Rightarrow> warning))
                                           (entries warnings)))
                                        (entries response))))))))"

text \<open>For stating what the classifier returns: an object, and a warning object tagged
  with the name of its module.\<close>

definition withModule :: "string \<times> json \<Rightarrow> json" where
  "withModule mw = (case mw of (modname, warning) \<Rightarrow> JObj (setProp ''module'' (JStr modname) (entries warning)))"

fun is_object :: "json \<Rightarrow> bool" where
  "is_object (JObj kvs) = True"
| "is_object v = False"

section \<open>Session, options and the transport\<close>

text \<open>A warn handler: the handler that records what it is given, or the decoration of
  a handler by \<open>makeWarnDroppingTruncatedResultWarning\<close>.\<close>

datatype warn_handler = Warn | DropTruncated warn_handler

text \<open>An options object; \<open>None\<close> is an absent key. \<open>tokenType\<close> may be present and
  \<open>null\<close> (\<open>Some None\<close>).\<close>

record options =
  method' :: "string option"
  tokenType :: "string option option"
  tokenName :: "string option"
  maxRetries :: "rat option"
  maxRetriesSeconds :: "rat option"
  retryAfterMaxlagSeconds :: "rat option"
  retryAfterReadonlySeconds :: "rat option"
  userAgent :: "string option"
  warn :: "warn_handler option"
  dropTruncatedResultWarning :: "bool option"

definition no_options :: options where
  "no_options = \<lparr> method' = None, tokenType = None, tokenName = None, maxRetries = None,
     maxRetriesSeconds = None, retryAfterMaxlagSeconds = None,
     retryAfterReadonlySeconds = None, userAgent = None, warn = None,
     dropTruncatedResultWarning = None \<rparr>"

definition DEFAULT_OPTIONS :: options where
  "DEFAULT_OPTIONS = \<lparr> method' = Some ''GET'', tokenType = Some None,
     tokenName = Some ''token'', maxRetries = None, maxRetriesSeconds = Some 65,
     retryAfterMaxlagSeconds = Some 5, retryAfterReadonlySeconds = Some 30,
     userAgent = None, warn = Some Warn, dropTruncatedResultWarning = Some False \<rparr>"

definition DEFAULT_USER_AGENT :: string where
  "DEFAULT_USER_AGENT = ''m3api/0.6.1 (https://www.npmjs.com/package/m3api)''"

text \<open>The object spread \<open>{ ...a, ...b }\<close> of two options objects.\<close>

definition later :: "'a option \<Rightarrow> 'a option \<Rightarrow> 'a option" where
  "later a b = (case b of Some v \<Rightarrow> Some v | None \<Rightarrow> a)"

definition spread :: "options \<Rightarrow> options \<Rightarrow> options" where
  "spread a b = \<lparr> method' = later (method' a) (method' b),
     tokenType = later (tokenType a) (tokenType b),
     tokenName = later (tokenName a) (tokenName b),
     maxRetries = later (maxRetries a) (maxRetries b),
     maxRetriesSeconds = later (maxRetriesSeconds a) (maxRetriesSeconds b),
     retryAfterMaxlagSeconds = later (retryAfterMaxlagSeconds a) (retryAfterMaxlagSeconds b),
     retryAfterReadonlySeconds =
       later (retryAfterReadonlySeconds a) (retryAfterReadonlySeconds b),
     userAgent = later (userAgent a) (userAgent b),
     warn = later (warn a) (warn b),
     dropTruncatedResultWarning =
       later (dropTruncatedResultWarning a) (dropTruncatedResultWarning b) \<rparr>"

text \<open>A response of the transport: the status, the headers (an object from lowercase
  names to string values, as the list of its properties), the decoded body, and the time
  the call took (milliseconds on the \<open>performance.now()\<close> clock).\<close>

record response =
  status :: int
  headers :: "(string \<times> string) list"
  body :: json
  elapsed :: rat

text \<open>A call of the transport: \<open>internalGet(params, userAgent)\<close> or
  \<open>internalPost(urlParams, bodyParams, userAgent)\<close>.\<close>

datatype sent = Get wparams string | Post wparams wparams string

text \<open>
  The session together with what surrounds it. \<open>defaultParams\<close>, \<open>defaultOptions\<close>,
  \<open>tokens\<close> and \<open>warnedDefaultUserAgent\<close> are the members of the \<open>Session\<close> object.
  \<open>now\<close> is the reading of \<open>performance.now()\<close>. The abstract methods
  \<open>internalGet\<close> and \<open>internalPost\<close> are implemented by a scripted transport, like the
  sessions of the repository's tests: \<open>script\<close> holds the responses still to come, one
  per call whatever the call is, and a call beyond the script is rejected. \<open>calls\<close>,
  \<open>timeouts\<close> and \<open>warned\<close> record the transport calls, the \<open>setTimeout\<close> delays and
  the arguments of the warn handler, oldest first.
\<close>

record world =
  defaultParams :: params
  defaultOptions :: options
  tokens :: "string \<rightharpoonup> string"
  warnedDefaultUserAgent :: bool
  now :: rat
  script :: "response list"
  calls :: "sent list"
  timeouts :: "rat list"
  warned :: "warning list"

definition transport :: "sent \<Rightarrow> world \<Rightarrow> (error + response) \<times> world" where
  "transport call w =
     (case script w of
        [] \<Rightarrow> (Inl TransportError, w\<lparr> calls := calls w @ [call] \<rparr>)
      | r # rs \<Rightarrow>
          (Inr r, w\<lparr> script := rs, calls := calls w @ [call], now := now w + elapsed r \<rparr>))"

definition internalGet :: "wparams \<Rightarrow> string \<Rightarrow> world \<Rightarrow> (error + response) \<times> world" where
  "internalGet ps ua w = transport (Get ps ua) w"

definition internalPost ::
  "wparams \<Rightarrow> wparams \<Rightarrow> string \<Rightarrow> world \<Rightarrow> (error + response) \<times> world" where
  "internalPost urlParams bodyParams ua w = transport (Post urlParams bodyParams ua) w"

definition splitPostParameters :: "wparams \<Rightarrow> wparams \<times> wparams" where
  "splitPostParameters ps =
     ((\<lambda>key. if key = ''action'' \<or> key = ''origin'' then ps key else None),
      (\<lambda>key. if key = ''action'' \<or> key = ''origin'' then None else ps key))"

text \<open>\<open>new Promise( resolve => setTimeout( resolve, millis ) )\<close>: a timer never fires
  early, and a negative delay counts as none.\<close>

definition sleep :: "rat \<Rightarrow> world \<Rightarrow> world" where
  "sleep millis w = w\<lparr> now := now w + max millis 0, timeouts := timeouts w @ [millis] \<rparr>"

subsection \<open>Warn handlers\<close>

text \<open>\<open>error.warnings.filter( notTruncatedResultWarning )\<close>; \<open>None\<close> when the
  predicate throws.\<close>

fun filterNotTruncated :: "json list \<Rightarrow> json list option" where
  "filterNotTruncated [] = Some []"
| "filterNotTruncated (x # xs) =
     (case notTruncatedResultWarning x of
        None \<Rightarrow> None
      | Some keep \<Rightarrow>
          (case filterNotTruncated xs of
             None \<Rightarrow> None
           | Some ys \<Rightarrow> Some (if keep then x # ys else ys)))"

text \<open>Calling a warn handler.\<close>

fun callWarn :: "warn_handler \<Rightarrow> warning \<Rightarrow> world \<Rightarrow> (error + unit) \<times> world" where
  "callWarn Warn e w = (Inr (), w\<lparr> warned := warned w @ [e] \<rparr>)"
| "callWarn (DropTruncated h) (ApiWarnings ws) w =
     (case filterNotTruncated ws of
        None \<Rightarrow> (Inl TypeError, w)
      | Some ws' \<Rightarrow>
          if length ws' > 0
          then callWarn h (if length ws' = length ws then ApiWarnings ws else ApiWarnings ws') w
          else (Inr (), w))"
| "callWarn (DropTruncated h) e w = callWarn h e w"

text \<open>An advisory warning is not an \<open>ApiWarnings\<close>, so no handler throws on it.\<close>

definition advise :: "warn_handler \<Rightarrow> warning \<Rightarrow> world \<Rightarrow> world" where
  "advise h e w = snd (callWarn h e w)"

section \<open>Retry and dispatch engine\<close>

subsection \<open>\<open>parseInt\<close>\<close>

definition is_space :: "char \<Rightarrow> bool" where
  "is_space c = ((of_char c :: nat) \<in> {9, 10, 11, 12, 13, 32})"

definition hex_val :: "char \<Rightarrow> nat option" where
  "hex_val c =
     (let n = (of_char c :: nat)
      in if 48 \<le> n \<and> n \<le> 57 then Some (n - 48)
         else if 97 \<le> n \<and> n \<le> 102 then Some (n - 87)
         else if 65 \<le> n \<and> n \<le> 70 then Some (n - 55)
         else None)"

definition radix_digit :: "nat \<Rightarrow> char \<Rightarrow> bool" where
  "radix_digit radix c = (case hex_val c of Some d \<Rightarrow> d < radix | None \<Rightarrow> False)"

definition radix_value :: "nat \<Rightarrow> string \<Rightarrow> nat" where
  "radix_value radix s =
     foldl (\<lambda>acc c. radix * acc + (case hex_val c of Some d \<Rightarrow> d | None \<Rightarrow> 0)) 0 s"

text \<open>\<open>parseInt(string)\<close> without a radix: leading (ASCII) white space, a sign, the
  prefix \<open>0x\<close> for radix 16, then the longest run of digits; \<open>None\<close> is \<open>NaN\<close>.\<close>

definition parseInt :: "string \<Rightarrow> int option" where
  "parseInt s =
     (let t = dropWhile is_space s;
          negative = is_prefix ''-'' t;
          u = (if is_prefix ''-'' t \<or> is_prefix ''+'' t then drop 1 t else t);
          hex = (is_prefix ''0x'' u \<or> is_prefix ''0X'' u);
          radix = (if hex then 16 else 10);
          ds = takeWhile (radix_digit radix) (if hex then drop 2 u else u)
      in if ds = [] then None
         else Some (if negative then - int (radix_value radix ds) else int (radix_value radix ds)))"

subsection \<open>The arguments of \<open>internalRequest\<close>\<close>

record call =
  ir_method :: string
  ir_params :: wparams
  ir_userAgent :: string
  ir_warn :: warn_handler
  ir_tokenType :: "string option"
  ir_tokenName :: string
  ir_retryUntil :: rat
  ir_retryAfterMaxlagSeconds :: rat
  ir_retryAfterReadonlySeconds :: rat

subsection \<open>PREPARE: the body of \<open>request\<close> up to the call of \<open>internalRequest\<close>\<close>

text \<open>Reading a destructured option. After the spread with \<open>DEFAULT_OPTIONS\<close> only
  \<open>maxRetries\<close> and \<open>userAgent\<close> can be absent, so the fallback is used for
  \<open>userAgent\<close> alone, where the empty string is as falsy as \<open>undefined\<close>.\<close>

definition option_value :: "'a option \<Rightarrow> 'a \<Rightarrow> 'a" where
  "option_value x fallback = (case x of Some v \<Rightarrow> v | None \<Rightarrow> fallback)"

definition prepare :: "params \<Rightarrow> options \<Rightarrow> world \<Rightarrow> call \<times> world" where
  "prepare ps opts w =
     (let os = spread (spread DEFAULT_OPTIONS (defaultOptions w)) opts;
          warn' = option_value (warn os) Warn;
          w1 = (if maxRetries os \<noteq> None
                   \<and> maxRetriesSeconds (spread (defaultOptions w) opts) = None
                then advise warn' MaxRetriesWarning w else w);
          userAgent' = option_value (userAgent os) [];
          fullUserAgent = (if userAgent' \<noteq> [] then userAgent' @ '' '' @ DEFAULT_USER_AGENT
                           else DEFAULT_USER_AGENT);
          w2 = (if userAgent' \<noteq> [] then w1
                else if \<not> warnedDefaultUserAgent w1
                  then (advise warn' DefaultUserAgentWarning w1)\<lparr> warnedDefaultUserAgent := True \<rparr>
                else w1);
          actualWarn = (if option_value (dropTruncatedResultWarning os) False
                        then DropTruncated warn' else warn');
          retryUntil = now w2 + option_value (maxRetriesSeconds os) 0 * 1000;
          tokenType' = option_value (tokenType os) None;
          tokenName' = option_value (tokenName os) ''token'';
          tokenParams = (if tokenType' \<noteq> None then [tokenName' \<mapsto> PToken] else Map.empty)
      in (\<lparr> ir_method = option_value (method' os) ''undefined'',
            ir_params = transformParams
              (defaultParams w ++ tokenParams ++ ps ++ [''format'' \<mapsto> PStr ''json'']),
            ir_userAgent = fullUserAgent,
            ir_warn = actualWarn,
            ir_tokenType = tokenType',
            ir_tokenName = tokenName',
            ir_retryUntil = retryUntil,
            ir_retryAfterMaxlagSeconds = option_value (retryAfterMaxlagSeconds os) 0,
            ir_retryAfterReadonlySeconds = option_value (retryAfterReadonlySeconds os) 0 \<rparr>,
          w2))"

subsection \<open>DISPATCH\<close>

definition dispatch :: "string \<Rightarrow> wparams \<Rightarrow> string \<Rightarrow> world \<Rightarrow> (error + response) \<times> world" where
  "dispatch m ps ua w =
     (if m = ''GET'' then internalGet ps ua w
      else if m = ''POST''
        then (case splitPostParameters ps of
                (urlParams, bodyParams) \<Rightarrow> internalPost urlParams bodyParams ua w)
      else (Inl (UnknownMethod m), w))"

subsection \<open>EVALUATE: the body of \<open>internalRequest\<close> after the response has arrived\<close>

text \<open>\<open>retryIfBefore\<close> answers with the promise of a retry or with \<open>null\<close>. The
  promise is represented by the delay in milliseconds; \<open>internalRequest\<close> below then
  waits and calls itself. A delay of \<open>None\<close> is \<open>NaN\<close>, for which the comparison
  fails. The clock, the delays and the deadline are exact rationals here; the code adds
  and compares doubles, so the two can differ where \<open>now + delay\<close> and the deadline
  are within the rounding of each other.\<close>

definition retryIfBefore :: "rat \<Rightarrow> rat option \<Rightarrow> world \<Rightarrow> rat option" where
  "retryIfBefore retryUntil retryAfterSeconds w =
     (case retryAfterSeconds of
        None \<Rightarrow> None
      | Some s \<Rightarrow> if now w + 1000 * s \<le> retryUntil then Some (1000 * s) else None)"

text \<open>How the evaluation of one response ends.\<close>

datatype verdict = Retry rat | Throw error | Return json

text \<open>The constructor of \<open>ApiWarnings\<close> reads \<open>warnings[0].code\<close>.\<close>

definition newApiWarnings :: "json list \<Rightarrow> error + warning" where
  "newApiWarnings ws =
     (case ws of
        [] \<Rightarrow> Inl TypeError
      | w0 # rest \<Rightarrow> if w0 = JNull then Inl TypeError else Inr (ApiWarnings ws))"

text \<open>Steps 6 and 7: body-level errors are thrown; otherwise warnings go to the warn
  handler and the body is returned.\<close>

definition classify :: "call \<Rightarrow> json \<Rightarrow> json \<Rightarrow> world \<Rightarrow> verdict \<times> world" where
  "classify c errors b w =
     (case throwIfErrors errors of
        Some e \<Rightarrow> (Throw e, w)
      | None \<Rightarrow>
          (case responseWarnings b of
             Inl e \<Rightarrow> (Throw e, w)
           | Inr (warnings, b') \<Rightarrow>
               if length warnings > 0
               then (case newApiWarnings warnings of
                       Inl e \<Rightarrow> (Throw e, w)
                     | Inr e \<Rightarrow>
                         (case callWarn (ir_warn c) e w of
                            (Inl e', w') \<Rightarrow> (Throw e', w')
                          | (Inr u, w') \<Rightarrow> (Return b', w')))
               else (Return b', w)))"

text \<open>Step 5, \<open>usedToken\<close> being \<open>tokenParams !== null\<close>: a bad token clears the
  token cache and asks for a retry without delay; whatever does not retry goes on to
  steps 6 and 7.\<close>

definition badtokenStep :: "call \<Rightarrow> bool \<Rightarrow> json \<Rightarrow> json \<Rightarrow> world \<Rightarrow> verdict \<times> world" where
  "badtokenStep c usedToken errors b w =
     (case (if usedToken then hasErrorCode ''badtoken'' errors else Inr False) of
        Inl e \<Rightarrow> (Throw e, w)
      | Inr badtoken \<Rightarrow>
          if badtoken
          then (case retryIfBefore (ir_retryUntil c) (Some 0) (w\<lparr> tokens := Map.empty \<rparr>) of
                  Some millis \<Rightarrow> (Retry millis, w\<lparr> tokens := Map.empty \<rparr>)
                | None \<Rightarrow> classify c errors b (w\<lparr> tokens := Map.empty \<rparr>))
          else classify c errors b w)"

text \<open>Step 4: without a \<open>retry-after\<close> header, a \<open>readonly\<close> error asks for a retry
  after \<open>retryAfterReadonlySeconds\<close>.\<close>

definition readonlyStep ::
  "call \<Rightarrow> bool \<Rightarrow> bool \<Rightarrow> json \<Rightarrow> json \<Rightarrow> world \<Rightarrow> verdict \<times> world" where
  "readonlyStep c usedToken hasRetryAfterHeader errors b w =
     (case (if \<not> hasRetryAfterHeader then hasErrorCode ''readonly'' errors else Inr False) of
        Inl e \<Rightarrow> (Throw e, w)
      | Inr readonly \<Rightarrow>
          (case (if readonly
                 then retryIfBefore (ir_retryUntil c) (Some (ir_retryAfterReadonlySeconds c)) w
                 else None) of
             Some millis \<Rightarrow> (Retry millis, w)
           | None \<Rightarrow> badtokenStep c usedToken errors b w))"

text \<open>Step 3: without a \<open>retry-after\<close> header, a \<open>maxlag\<close> error asks for a retry
  after \<open>retryAfterMaxlagSeconds\<close>.\<close>

definition maxlagStep ::
  "call \<Rightarrow> bool \<Rightarrow> bool \<Rightarrow> json \<Rightarrow> json \<Rightarrow> world \<Rightarrow> verdict \<times> world" where
  "maxlagStep c usedToken hasRetryAfterHeader errors b w =
     (case (if \<not> hasRetryAfterHeader then hasErrorCode ''maxlag'' errors else Inr False) of
        Inl e \<Rightarrow> (Throw e, w)
      | Inr maxlag \<Rightarrow>
          (case (if maxlag
                 then retryIfBefore (ir_retryUntil c) (Some (ir_retryAfterMaxlagSeconds c)) w
                 else None) of
             Some millis \<Rightarrow> (Retry millis, w)
           | None \<Rightarrow> readonlyStep c usedToken hasRetryAfterHeader errors b w))"

text \<open>The whole evaluation: step 1 (the status), step 2 (the \<open>retry-after\<close> header,
  read with \<open>parseInt\<close>), then the errors of the body and steps 3 to 7.\<close>

definition evaluate :: "call \<Rightarrow> bool \<Rightarrow> response \<Rightarrow> world \<Rightarrow> verdict \<times> world" where
  "evaluate c usedToken r w =
     (if status r \<noteq> 200 then (Throw (HttpStatus (status r)), w)
      else (case (case map_of (headers r) ''retry-after'' of
                    Some v \<Rightarrow>
                      retryIfBefore (ir_retryUntil c) (map_option of_int (parseInt v)) w
                  | None \<Rightarrow> None) of
              Some millis \<Rightarrow> (Retry millis, w)
            | None \<Rightarrow>
                (case responseErrors (body r) of
                   Inl e \<Rightarrow> (Throw e, w)
                 | Inr errors \<Rightarrow>
                     maxlagStep c usedToken (map_of (headers r) ''retry-after'' \<noteq> None)
                       errors (body r) w)))"

subsection \<open>The continuation parameters of a response\<close>

text \<open>A value of the server's \<open>continue\<close> object as a parameter value. For an
  array, \<open>transformParamArray\<close> reads every element through its string form only
  (\<open>String.prototype.includes.call( element, '|' )\<close> and \<open>join\<close>), so \<open>PArr\<close>
  carries the elements as the two read them: a string or a number as it is, any other
  element but \<open>null\<close> by its string form, and \<open>null\<close>, which \<open>join\<close> reads as
  the empty string, by the empty string.\<close>

fun elementOf :: "json \<Rightarrow> scalar" where
  "elementOf (JStr s) = SStr s"
| "elementOf (JNum n) = SNum n"
| "elementOf JNull = SStr []"
| "elementOf x = SStr (String_json x)"

fun fromJson :: "json \<Rightarrow> pvalue" where
  "fromJson (JStr s) = PStr s"
| "fromJson (JNum n) = PNum n"
| "fromJson (JBool b) = PBool b"
| "fromJson JNull = PNull"
| "fromJson (JArr xs) = PArr (map elementOf xs)"
| "fromJson (JObj kvs) = POther (JObj kvs)"

text \<open>\<open>String.prototype.includes\<close> cannot be called on \<open>null\<close>: an array in which
  \<open>null\<close> comes before every element with a \<open>|\<close> makes \<open>transformParamArray\<close>,
  and with it the request, throw a \<open>TypeError\<close>. The model has no parameter value
  for such an array; \<open>sendable\<close> says of a \<open>continue\<close> value that none of
  its members is one.\<close>

definition throwsOnArray :: "json list \<Rightarrow> bool" where
  "throwsOnArray xs = (JNull \<in> set (takeWhile (\<lambda>x. \<not> includes_pipe (elementOf x)) xs))"

definition sendable :: "json \<Rightarrow> bool" where
  "sendable c =
     list_all (\<lambda>(key, v). case v of JArr xs \<Rightarrow> \<not> throwsOnArray xs | _ \<Rightarrow> True) (entries c)"

text \<open>\<open>response.continue && { ...response.continue }\<close>, where \<open>None\<close> is
  \<open>undefined\<close>. A \<open>continue\<close> member that is present but falsy yields that falsy
  value, which is not \<open>undefined\<close> and spreads to nothing.\<close>

definition continueParamsOf :: "json \<Rightarrow> params option" where
  "continueParamsOf response =
     (case getProp response ''continue'' of
        None \<Rightarrow> None
      | Some c \<Rightarrow>
          if truthy c then Some (map_of (map (\<lambda>(k, v). (k, fromJson v)) (entries c)))
          else Some Map.empty)"

text \<open>\<open>response.query.tokens[ type + 'token' ]\<close> when it is a string; every failure on
  the way is caught by the \<open>try\<close> around it.\<close>

definition tokenOf :: "string \<Rightarrow> json \<Rightarrow> string option" where
  "tokenOf type response =
     (case getProp response ''query'' of
        Some q \<Rightarrow>
          (case getProp q ''tokens'' of
             Some t \<Rightarrow> (case getProp t (type @ ''token'') of Some (JStr s) \<Rightarrow> Some s | _ \<Rightarrow> None)
           | None \<Rightarrow> None)
      | None \<Rightarrow> None)"

text \<open>The parameters of the token query: \<open>meta\<close> and \<open>type\<close> are one-element sets.\<close>

definition tokenQuery :: "string \<Rightarrow> params" where
  "tokenQuery type =
     [''action'' \<mapsto> PStr ''query'', ''meta'' \<mapsto> PSet [SStr ''tokens''], ''type'' \<mapsto> PSet [SStr type]]"

section \<open>Requests, tokens and continuation\<close>

text \<open>
  \<open>internalRequest\<close>, \<open>getToken\<close> and \<open>request\<close> call each other. \<open>tokenPages\<close> is
  the loop \<open>for await ( const response of this.requestAndContinue( params, options ) )\<close>
  of \<open>getToken\<close>, with the body of the generator in place: one round is one request of
  the generator followed by the body of the loop, and \<open>break\<close> ends the generator
  without a further request. Every function returns what the promise settles to
  (\<open>Inl\<close> for a rejection) and the world afterwards.
\<close>

function internalRequest :: "call \<Rightarrow> world \<Rightarrow> (error + json) \<times> world"
  and getToken :: "string \<Rightarrow> options \<Rightarrow> world \<Rightarrow> (error + string option) \<times> world"
  and tokenPages :: "string \<Rightarrow> options \<Rightarrow> params \<Rightarrow> world \<Rightarrow> (error + unit) \<times> world"
  and request :: "params \<Rightarrow> options \<Rightarrow> world \<Rightarrow> (error + json) \<times> world"
where
  "internalRequest c w =
     (case (if ir_params c (ir_tokenName c) = Some WToken
            then (case ir_tokenType c of
                    None \<Rightarrow> (Inl TypeError, w)
                  | Some type \<Rightarrow>
                      (case getToken type
                              (no_options\<lparr>
                                 maxRetriesSeconds := Some ((ir_retryUntil c - now w) / 1000),
                                 retryAfterMaxlagSeconds := Some (ir_retryAfterMaxlagSeconds c),
                                 retryAfterReadonlySeconds := Some (ir_retryAfterReadonlySeconds c),
                                 userAgent := Some (ir_userAgent c),
                                 warn := Some (ir_warn c) \<rparr>) w of
                         (Inl e, w1) \<Rightarrow> (Inl e, w1)
                       | (Inr token, w1) \<Rightarrow>
                           (Inr (Some [ir_tokenName c \<mapsto>
                                   (case token of Some t \<Rightarrow> WStr t | None \<Rightarrow> WUndefined)]), w1)))
            else (Inr None, w)) of
        (Inl e, w1) \<Rightarrow> (Inl e, w1)
      | (Inr tokenParams, w1) \<Rightarrow>
          (case dispatch (ir_method c)
                  (ir_params c ++ (case tokenParams of Some tp \<Rightarrow> tp | None \<Rightarrow> Map.empty))
                  (ir_userAgent c) w1 of
             (Inl e, w2) \<Rightarrow> (Inl e, w2)
           | (Inr r, w2) \<Rightarrow>
               (case evaluate c (tokenParams \<noteq> None) r w2 of
                  (Retry millis, w3) \<Rightarrow> internalRequest c (sleep millis w3)
                | (Throw e, w3) \<Rightarrow> (Inl e, w3)
                | (Return b, w3) \<Rightarrow> (Inr b, w3))))"
| "getToken type opts w =
     (if tokens w type = None
      then (case tokenPages type
                   (opts\<lparr> method' := Some ''GET'', tokenType := Some None,
                          dropTruncatedResultWarning := Some True \<rparr>)
                   [''continue'' \<mapsto> PUndefined] w of
              (Inl e, w1) \<Rightarrow> (Inl e, w1)
            | (Inr u, w1) \<Rightarrow> (Inr (tokens w1 type), w1))
      else (Inr (tokens w type), w))"
| "tokenPages type opts continueParams w =
     (case request (tokenQuery type ++ continueParams) opts w of
        (Inl e, w1) \<Rightarrow> (Inl e, w1)
      | (Inr response, w1) \<Rightarrow>
          (case tokenOf type response of
             Some token \<Rightarrow> (Inr (), w1\<lparr> tokens := (tokens w1)(type \<mapsto> token) \<rparr>)
           | None \<Rightarrow>
               (case continueParamsOf response of
                  Some continueParams' \<Rightarrow> tokenPages type opts continueParams' w1
                | None \<Rightarrow> (Inr (), w1))))"
| "request ps opts w = (case prepare ps opts w of (c, w') \<Rightarrow> internalRequest c w')"
  by pat_completeness auto

subsection \<open>Termination: every successful request uses up a response of the script\<close>


lemma script_callWarn [simp]: "script (snd (callWarn h e w)) = script w"
  by (induction h e w rule: callWarn.induct) (auto split: option.splits)

lemma script_advise [simp]: "script (advise h e w) = script w"
  by (simp add: advise_def)

lemma script_sleep [simp]: "script (sleep millis w) = script w"
  by (simp add: sleep_def)

lemma script_classify [simp]: "script (snd (classify c errors b w)) = script w"
proof -
  have "script (snd (case callWarn h e w of (Inl e', w') \<Rightarrow> (Throw e', w')
                      | (Inr u, w') \<Rightarrow> (Return b', w'))) = script w" for h e b'
    using script_callWarn [of h e w]
    by (cases "callWarn h e w") (auto split: sum.splits)
  then show ?thesis
    by (simp add: classify_def split: option.splits sum.splits prod.splits)
qed

lemma script_badtokenStep [simp]: "script (snd (badtokenStep c u errors b w)) = script w"
  by (simp add: badtokenStep_def split: option.splits sum.splits)

lemma script_readonlyStep [simp]: "script (snd (readonlyStep c u h errors b w)) = script w"
  by (simp add: readonlyStep_def split: option.splits sum.splits)

lemma script_maxlagStep [simp]: "script (snd (maxlagStep c u h errors b w)) = script w"
  by (simp add: maxlagStep_def split: option.splits sum.splits)

lemma script_evaluate [simp]: "script (snd (evaluate c u r w)) = script w"
  by (simp add: evaluate_def split: option.splits sum.splits)

lemma script_prepare [simp]: "script (snd (prepare ps opts w)) = script w"
  by (simp add: prepare_def Let_def)

lemma script_transport:
  "transport call w = (res, w') \<Longrightarrow>
     length (script w') \<le> length (script w)
     \<and> (case res of Inr r \<Rightarrow> length (script w') < length (script w) | Inl e \<Rightarrow> True)"
  by (auto simp: transport_def split: list.splits)

lemma script_dispatch:
  "dispatch m ps ua w = (res, w') \<Longrightarrow>
     length (script w') \<le> length (script w)
     \<and> (case res of Inr r \<Rightarrow> length (script w') < length (script w) | Inl e \<Rightarrow> True)"
  unfolding dispatch_def internalGet_def internalPost_def
  by (auto split: if_splits prod.splits dest: script_transport)

definition shorter :: "('e + 'a) \<times> world \<Rightarrow> world \<Rightarrow> bool" where
  "shorter res w =
     (length (script (snd res)) \<le> length (script w)
      \<and> (case fst res of Inr v \<Rightarrow> length (script (snd res)) < length (script w) | Inl e \<Rightarrow> True))"

definition not_longer :: "('e + 'a) \<times> world \<Rightarrow> world \<Rightarrow> bool" where
  "not_longer res w = (length (script (snd res)) \<le> length (script w))"


lemma pair_exists: "\<exists>x y. p = (x, y)"
  by (cases p) simp

lemma script_partial:
  "internalRequest_getToken_tokenPages_request_dom (Inl (Inl (c, w))) \<Longrightarrow>
     shorter (internalRequest c w) w"
  "internalRequest_getToken_tokenPages_request_dom (Inl (Inr (type, opts, w))) \<Longrightarrow>
     not_longer (getToken type opts w) w"
  "internalRequest_getToken_tokenPages_request_dom (Inr (Inl (type, opts, cp, w))) \<Longrightarrow>
     not_longer (tokenPages type opts cp w) w"
  "internalRequest_getToken_tokenPages_request_dom (Inr (Inr (ps, opts, w))) \<Longrightarrow>
     shorter (request ps opts w) w"
proof (induct rule: internalRequest_getToken_tokenPages_request.pinduct)
  case (1 c w)
  define G where "G =
     (if ir_params c (ir_tokenName c) = Some WToken
            then (case ir_tokenType c of
                    None \<Rightarrow> (Inl TypeError, w)
                  | Some type \<Rightarrow>
                      (case getToken type
                              (no_options\<lparr>
                                 maxRetriesSeconds := Some ((ir_retryUntil c - now w) / 1000),
                                 retryAfterMaxlagSeconds := Some (ir_retryAfterMaxlagSeconds c),
                                 retryAfterReadonlySeconds := Some (ir_retryAfterReadonlySeconds c),
                                 userAgent := Some (ir_userAgent c),
                                 warn := Some (ir_warn c) \<rparr>) w of
                         (Inl e, w1) \<Rightarrow> (Inl e, w1)
                       | (Inr token, w1) \<Rightarrow>
                           (Inr (Some [ir_tokenName c \<mapsto>
                                   (case token of Some t \<Rightarrow> WStr t | None \<Rightarrow> WUndefined)]), w1)))
            else (Inr None, w))"
  note ps = internalRequest.psimps [OF "1.hyps"(1), folded G_def]
  obtain x y where G: "G = (x, y)"
    by fastforce
  have y: "length (script y) \<le> length (script w)"
  proof (cases "ir_params c (ir_tokenName c) = Some WToken")
    case False
    with G show ?thesis by (simp add: G_def)
  next
    case True
    show ?thesis
    proof (cases "ir_tokenType c")
      case None
      with True G show ?thesis by (simp add: G_def)
    next
      case (Some ty)
      define gt where "gt = getToken ty
                              (no_options\<lparr>
                                 maxRetriesSeconds := Some ((ir_retryUntil c - now w) / 1000),
                                 retryAfterMaxlagSeconds := Some (ir_retryAfterMaxlagSeconds c),
                                 retryAfterReadonlySeconds := Some (ir_retryAfterReadonlySeconds c),
                                 userAgent := Some (ir_userAgent c),
                                 warn := Some (ir_warn c) \<rparr>) w"
      from "1.hyps"(2) [OF True Some, folded gt_def]
      have "length (script (snd gt)) \<le> length (script w)"
        by (simp add: not_longer_def)
      moreover from True Some G [unfolded G_def] have "y = snd gt"
        by (simp add: gt_def [symmetric] split: prod.splits sum.splits)
      ultimately show ?thesis by simp
    qed
  qed
  show ?case
  proof (cases x)
    case (Inl e)
    with G y show ?thesis
      by (simp add: ps shorter_def)
  next
    case (Inr b)
    obtain xa ya where d: "dispatch (ir_method c)
               (ir_params c ++ (case b of None \<Rightarrow> \<lambda>x. None | Some tp \<Rightarrow> tp))
               (ir_userAgent c) y = (xa, ya)"
      by fastforce
    note sd = script_dispatch [OF d]
    show ?thesis
    proof (cases xa)
      case (Inl e)
      with G Inr d y sd show ?thesis
        by (simp add: ps shorter_def)
    next
      case r: (Inr ba)
      with sd y have lt: "length (script ya) < length (script w)" by simp
      obtain xb yb where ev: "evaluate c (b \<noteq> None) ba ya = (xb, yb)"
        by fastforce
      have yb: "script yb = script ya"
        by (metis ev script_evaluate snd_conv)
      show ?thesis
      proof (cases xb)
        case (Retry x1)
        from "1.hyps"(3) [OF G [symmetric, unfolded G_def] Inr d [symmetric] r ev [symmetric] Retry]
        have "shorter (internalRequest c (sleep x1 yb)) (sleep x1 yb)" .
        then have "shorter (internalRequest c (sleep x1 yb)) w"
          using yb lt by (auto simp: shorter_def split: sum.splits)
        with G Inr d r ev Retry show ?thesis
          by (simp add: ps)
      next
        case (Throw e)
        with G Inr d r ev yb lt show ?thesis
          by (simp add: ps shorter_def)
      next
        case (Return v)
        with G Inr d r ev yb lt show ?thesis
          by (simp add: ps shorter_def)
      qed
    qed
  qed
next
  case (2 type opts w)
  define cp0 :: params where "cp0 = [''continue'' \<mapsto> PUndefined]"
  define opts' where "opts' = opts\<lparr> method' := Some ''GET'', tokenType := Some None,
                          dropTruncatedResultWarning := Some True \<rparr>"
  note ps = getToken.psimps [OF "2.hyps"(1), folded cp0_def opts'_def]
  show ?case
  proof (cases "tokens w type = None")
    case True
    obtain x y where tp: "tokenPages type opts' cp0 w = (x, y)"
      by fastforce
    from "2.hyps"(2) [OF True, folded cp0_def opts'_def] tp
    have "length (script y) \<le> length (script w)"
      by (simp add: not_longer_def)
    with True tp show ?thesis
      by (cases x) (simp_all add: ps not_longer_def)
  next
    case False
    then show ?thesis
      unfolding ps by (auto simp: not_longer_def)
  qed
next
  case (3 type opts continueParams w)
  obtain x y where rq: "(x, y) = request (tokenQuery type ++ continueParams) opts w"
    by (rule that [OF prod.collapse])
  from "3.hyps"(2) rq [symmetric] have sh: "length (script y) \<le> length (script w)"
    by (simp add: shorter_def)
  show ?case
  proof (cases x)
    case (Inl e)
    with rq [symmetric] sh show ?thesis
      by (simp add: tokenPages.psimps [OF "3.hyps"(1)] not_longer_def)
  next
    case (Inr b)
    show ?thesis
    proof (cases "tokenOf type b")
      case (Some token)
      with rq [symmetric] Inr sh show ?thesis
        by (simp add: tokenPages.psimps [OF "3.hyps"(1)] not_longer_def)
    next
      case None
      show ?thesis
      proof (cases "continueParamsOf b")
        case n: None
        with rq [symmetric] Inr None sh show ?thesis
          by (simp add: tokenPages.psimps [OF "3.hyps"(1)] not_longer_def)
      next
        case (Some x2)
        from "3.hyps"(3) [OF rq Inr None Some]
        have "not_longer (tokenPages type opts x2 y) y" .
        with rq [symmetric] Inr None Some sh show ?thesis
          by (simp add: tokenPages.psimps [OF "3.hyps"(1)] not_longer_def)
      qed
    qed
  qed
next
  case (4 ps opts w)
  obtain c w' where p: "(c, w') = prepare ps opts w"
    by (rule that [OF prod.collapse])
  have "script w' = script w"
    using script_prepare [of ps opts w] p [symmetric] by simp
  with "4.hyps"(2) [OF p] p [symmetric] show ?case
    by (auto simp: request.psimps [OF "4.hyps"(1)] shorter_def split: sum.splits)
qed



definition depth :: "options \<Rightarrow> world \<Rightarrow> nat" where
  "depth opts w =
     (if option_value (tokenType (spread (spread DEFAULT_OPTIONS (defaultOptions w)) opts)) None = None
      then 0 else 1)"

lemma script_evaluate_eq: "evaluate c u r w = (v, w') \<Longrightarrow> script w' = script w"
  by (metis script_evaluate snd_conv)

lemma script_prepare_eq: "prepare ps opts w = (c, w') \<Longrightarrow> script w' = script w"
  by (metis script_prepare snd_conv)

lemma defaultOptions_callWarn [simp]: "defaultOptions (snd (callWarn h e w)) = defaultOptions w"
  by (induction h e w rule: callWarn.induct) (auto split: option.splits)

lemma prepare_tokenType:
  "prepare ps opts w = (c, w') \<Longrightarrow>
     ir_tokenType c = option_value (tokenType (spread (spread DEFAULT_OPTIONS (defaultOptions w)) opts)) None"
  by (auto simp: prepare_def Let_def)

lemma all_dom: "All internalRequest_getToken_tokenPages_request_dom"
  apply (relation "inv_image (less_than <*lex*> less_than <*lex*> less_than)
    (\<lambda>x. case x of
       Inl (Inl (c, w)) \<Rightarrow> (length (script w), if ir_tokenType c = None then 0 else 1, 0::nat)
     | Inl (Inr (type, opts, w)) \<Rightarrow> (length (script w), 0::nat, 4)
     | Inr (Inl (type, opts, cp, w)) \<Rightarrow> (length (script w), depth opts w, 3)
     | Inr (Inr (ps, opts, w)) \<Rightarrow> (length (script w), depth opts w, 2))")
  subgoal by (intro wf_inv_image wf_lex_prod wf_less_than)
  subgoal by simp
  subgoal premises p for c w x y b xa ya ba xb yb x1
  proof -
    have 1: "length (script y) \<le> length (script w)"
    proof (cases "ir_params c (ir_tokenName c) = Some WToken")
      case False
      with p show ?thesis by simp
    next
      case True
      show ?thesis
      proof (cases "ir_tokenType c")
        case None
        with True p show ?thesis by simp
      next
        case (Some ty)
        from p True Some have "internalRequest_getToken_tokenPages_request_dom
               (Inl (Inr (ty, no_options\<lparr>
                                 maxRetriesSeconds := Some ((ir_retryUntil c - now w) / 1000),
                                 retryAfterMaxlagSeconds := Some (ir_retryAfterMaxlagSeconds c),
                                 retryAfterReadonlySeconds := Some (ir_retryAfterReadonlySeconds c),
                                 userAgent := Some (ir_userAgent c),
                                 warn := Some (ir_warn c) \<rparr>, w)))"
          by blast
        from script_partial(2) [OF this] True Some p(1) show ?thesis
          by (auto simp: not_longer_def split: prod.splits sum.splits)
      qed
    qed
    from p have "dispatch (ir_method c)
               (ir_params c ++ (case b of None \<Rightarrow> \<lambda>x. None | Some tp \<Rightarrow> tp))
               (ir_userAgent c) y = (Inr ba, ya)"
      by simp
    from script_dispatch [OF this] have 2: "length (script ya) < length (script y)" by simp
    from p have "evaluate c (b \<noteq> None) ba ya = (xb, yb)" by simp
    then have "script yb = script ya" by (rule script_evaluate_eq)
    with 1 2 show ?thesis by simp
  qed
  subgoal by (simp add: depth_def spread_def later_def option_value_def)
  subgoal by (simp add: depth_def)
  subgoal premises p for type opts continueParams w x y b x2
  proof -
    from p have d: "internalRequest_getToken_tokenPages_request_dom
        (Inr (Inr (tokenQuery type ++ continueParams, opts, w)))"
      and r: "request (tokenQuery type ++ continueParams) opts w = (Inr b, y)"
      by simp_all
    from script_partial(4) [OF d] r have "length (script y) < length (script w)"
      by (simp add: shorter_def)
    then show ?thesis by simp
  qed
  subgoal premises p for ps opts w x y
  proof -
    from p have e: "prepare ps opts w = (x, y)" by simp
    from script_prepare_eq [OF e] prepare_tokenType [OF e] show ?thesis
      by (simp add: depth_def)
  qed
  done

termination internalRequest
  by (rule all_dom)

declare internalRequest.simps [simp del] getToken.simps [simp del]
  tokenPages.simps [simp del] request.simps [simp del]

lemma script_internalRequest: "shorter (internalRequest c w) w"
  and script_getToken: "not_longer (getToken type opts w) w"
  and script_tokenPages: "not_longer (tokenPages type opts cp w) w"
  and script_request: "shorter (request ps opts w) w"
  using script_partial all_dom by blast+

text \<open>
  \<open>requestAndContinue\<close> run to its end: the responses the generator yields to a
  consumer that never breaks off, the error that ends the sequence if a request throws,
  and the world afterwards. The first argument of the loop is the value of
  \<open>continueParams\<close> at the start of a round.
\<close>

function requestAndContinue_loop ::
  "params \<Rightarrow> options \<Rightarrow> params \<Rightarrow> world \<Rightarrow> (json list \<times> error option) \<times> world" where
  "requestAndContinue_loop ps opts continueParams w =
     (case request (ps ++ continueParams) opts w of
        (Inl e, w1) \<Rightarrow> (([], Some e), w1)
      | (Inr response, w1) \<Rightarrow>
          (case continueParamsOf response of
             None \<Rightarrow> (([response], None), w1)
           | Some continueParams' \<Rightarrow>
               (case requestAndContinue_loop ps opts continueParams' w1 of
                  ((rs, e), w2) \<Rightarrow> ((response # rs, e), w2))))"
  by pat_completeness auto

termination requestAndContinue_loop
proof (relation "measure (\<lambda>(ps, opts, cp, w). length (script w))", goal_cases)
  case 1
  show ?case by simp
next
  case (2 ps opts continueParams w x y b x2)
  from script_request [of "ps ++ continueParams" opts w] 2(1) [symmetric] 2(2) show ?case
    by (simp add: shorter_def)
qed

declare requestAndContinue_loop.simps [simp del]

definition requestAndContinue ::
  "params \<Rightarrow> options \<Rightarrow> world \<Rightarrow> (json list \<times> error option) \<times> world" where
  "requestAndContinue ps opts w = requestAndContinue_loop ps opts [''continue'' \<mapsto> PUndefined] w"

section \<open>Notions for stating the properties\<close>

text \<open>The first statement of \<open>internalRequest\<close>: the value of \<open>tokenParams\<close> once
  the placeholder has been resolved, \<open>None\<close> being \<open>null\<close>.\<close>

definition resolveToken :: "call \<Rightarrow> world \<Rightarrow> (error + wparams option) \<times> world" where
  "resolveToken c w =
     (if ir_params c (ir_tokenName c) = Some WToken
      then (case ir_tokenType c of
              None \<Rightarrow> (Inl TypeError, w)
            | Some type \<Rightarrow>
                (case getToken type
                        (no_options\<lparr>
                           maxRetriesSeconds := Some ((ir_retryUntil c - now w) / 1000),
                           retryAfterMaxlagSeconds := Some (ir_retryAfterMaxlagSeconds c),
                           retryAfterReadonlySeconds := Some (ir_retryAfterReadonlySeconds c),
                           userAgent := Some (ir_userAgent c),
                           warn := Some (ir_warn c) \<rparr>) w of
                   (Inl e, w1) \<Rightarrow> (Inl e, w1)
                 | (Inr token, w1) \<Rightarrow>
                     (Inr (Some [ir_tokenName c \<mapsto>
                             (case token of Some t \<Rightarrow> WStr t | None \<Rightarrow> WUndefined)]), w1)))
      else (Inr None, w))"

text \<open>The parameters handed to the transport, \<open>{ ...params, ...tokenParams }\<close>.\<close>

definition sentParams :: "call \<Rightarrow> wparams option \<Rightarrow> wparams" where
  "sentParams c tokenParams =
     ir_params c ++ (case tokenParams of Some tp \<Rightarrow> tp | None \<Rightarrow> Map.empty)"

text \<open>\<open>tokenParams !== null\<close>.\<close>

definition usedToken :: "wparams option \<Rightarrow> bool" where
  "usedToken tokenParams = (tokenParams \<noteq> None)"

text \<open>None of the steps 2 to 4 asks for a retry, and none of them throws.\<close>

definition noEarlierRetry :: "call \<Rightarrow> response \<Rightarrow> json \<Rightarrow> world \<Rightarrow> bool" where
  "noEarlierRetry c r errors w =
     (case map_of (headers r) ''retry-after'' of
        Some v \<Rightarrow> retryIfBefore (ir_retryUntil c) (map_option of_int (parseInt v)) w = None
      | None \<Rightarrow>
          (case hasErrorCode ''maxlag'' errors of
             Inl e \<Rightarrow> False
           | Inr maxlag \<Rightarrow>
               (if maxlag
                then retryIfBefore (ir_retryUntil c) (Some (ir_retryAfterMaxlagSeconds c)) w = None
                else True)
               \<and> (case hasErrorCode ''readonly'' errors of
                      Inl e \<Rightarrow> False
                    | Inr readonly \<Rightarrow>
                        (if readonly
                         then retryIfBefore (ir_retryUntil c)
                                (Some (ir_retryAfterReadonlySeconds c)) w = None
                         else True))))"

text \<open>The options \<open>internalRequest\<close> hands to \<open>getToken\<close>, and the options
  \<open>getToken\<close> hands to \<open>requestAndContinue\<close>.\<close>

definition tokenOptions :: "call \<Rightarrow> world \<Rightarrow> options" where
  "tokenOptions c w = no_options\<lparr>
     maxRetriesSeconds := Some ((ir_retryUntil c - now w) / 1000),
     retryAfterMaxlagSeconds := Some (ir_retryAfterMaxlagSeconds c),
     retryAfterReadonlySeconds := Some (ir_retryAfterReadonlySeconds c),
     userAgent := Some (ir_userAgent c),
     warn := Some (ir_warn c) \<rparr>"

definition tokenRequestOptions :: "options \<Rightarrow> options" where
  "tokenRequestOptions opts = opts\<lparr> method' := Some ''GET'', tokenType := Some None,
     dropTruncatedResultWarning := Some True \<rparr>"

text \<open>A response that \<open>internalRequest\<close> returns as it is: status 200, no
  \<open>retry-after\<close> header, and an object without \<open>error\<close>, \<open>errors\<close> and
  \<open>warnings\<close>.\<close>

definition plain :: "response \<Rightarrow> bool" where
  "plain r =
     (status r = 200 \<and> map_of (headers r) ''retry-after'' = None
      \<and> (case body r of
            JObj kvs \<Rightarrow> map_of kvs ''error'' = None \<and> map_of kvs ''errors'' = None
                        \<and> map_of kvs ''warnings'' = None
          | _ \<Rightarrow> False))"

text \<open>The user agent that \<open>request\<close> computes from the \<open>userAgent\<close> option
  (\<open>None\<close> is \<open>undefined\<close>), and the options after the two spreads.\<close>

definition fullUserAgent :: "string option \<Rightarrow> string" where
  "fullUserAgent ua =
     (case ua of
        Some u \<Rightarrow> if u \<noteq> [] then u @ '' '' @ DEFAULT_USER_AGENT else DEFAULT_USER_AGENT
      | None \<Rightarrow> DEFAULT_USER_AGENT)"

definition composed :: "options \<Rightarrow> world \<Rightarrow> options" where
  "composed opts w = spread (spread DEFAULT_OPTIONS (defaultOptions w)) opts"

text \<open>A request without a token: the method is one the library knows, no token type
  is asked for, and neither the parameters nor the default parameters hold the token
  placeholder under the token name.\<close>

definition plainRequest :: "params \<Rightarrow> options \<Rightarrow> world \<Rightarrow> bool" where
  "plainRequest ps opts w =
     (let os = composed opts w;
          tokenName' = option_value (tokenName os) ''token''
      in (option_value (method' os) ''undefined'' = ''GET''
            \<or> option_value (method' os) ''undefined'' = ''POST'')
         \<and> option_value (tokenType os) None = None
         \<and> ps tokenName' \<noteq> Some PToken
         \<and> defaultParams w tokenName' \<noteq> Some PToken)"

text \<open>What the transport records for a call with the given method, parameters and
  user agent; and a parameter of a recorded call.\<close>

definition wireCall :: "string \<Rightarrow> wparams \<Rightarrow> string \<Rightarrow> sent" where
  "wireCall m ps ua =
     (if m = ''GET'' then Get ps ua
      else Post (fst (splitPostParameters ps)) (snd (splitPostParameters ps)) ua)"

definition sentParameter :: "string \<Rightarrow> sent \<Rightarrow> wire option" where
  "sentParameter key s = (case s of Get ps ua \<Rightarrow> ps key | Post us bs ua \<Rightarrow> (us ++ bs) key)"

text \<open>The continuation parameters that follow a response with the given body:
  \<open>{ ...response.continue }\<close> when the response has a \<open>continue\<close> member.\<close>

definition nextParams :: "json \<Rightarrow> params" where
  "nextParams b = (case continueParamsOf b of Some cp \<Rightarrow> cp | None \<Rightarrow> Map.empty)"

text \<open>The \<open>continue\<close> member of a body, if there is one, has only members that can be
  sent.\<close>

definition sendablePage :: "json \<Rightarrow> bool" where
  "sendablePage b = (case getProp b ''continue'' of Some c \<Rightarrow> sendable c | None \<Rightarrow> True)"

text \<open>The requests of a continued query starting with the continuation parameters
  \<open>cp\<close>: each request is made with the parameters of the query merged with the
  continuation parameters at hand, and each but the last returns a body with a
  \<open>continue\<close> member, from which the next continuation parameters are taken.
  \<open>pagesFrom\<close> says that these requests return the bodies \<open>bs\<close> and then \<open>l\<close>, the
  first without a \<open>continue\<close> member; \<open>pagesWorld\<close> is the world after them.\<close>

fun pagesFrom :: "params \<Rightarrow> options \<Rightarrow> params \<Rightarrow> world \<Rightarrow> json list \<Rightarrow> json \<Rightarrow> bool" where
  "pagesFrom ps opts cp w [] l =
     (fst (request (ps ++ cp) opts w) = Inr l \<and> getProp l ''continue'' = None)"
| "pagesFrom ps opts cp w (b # bs) l =
     (fst (request (ps ++ cp) opts w) = Inr b \<and> getProp b ''continue'' \<noteq> None
      \<and> pagesFrom ps opts (nextParams b) (snd (request (ps ++ cp) opts w)) bs l)"

fun pagesWorld :: "params \<Rightarrow> options \<Rightarrow> params \<Rightarrow> world \<Rightarrow> json list \<Rightarrow> world" where
  "pagesWorld ps opts cp w [] = snd (request (ps ++ cp) opts w)"
| "pagesWorld ps opts cp w (b # bs) =
     pagesWorld ps opts (nextParams b) (snd (request (ps ++ cp) opts w)) bs"



text \<open>How often the warn handlers have been called with a
  \<open>DefaultUserAgentWarning\<close>, and the state of a session that has warned at most once:
  not at all as long as \<open>warnedDefaultUserAgent\<close> is unset.\<close>

definition defaultUserAgentWarnings :: "world \<Rightarrow> nat" where
  "defaultUserAgentWarnings w = length (filter (\<lambda>e. e = DefaultUserAgentWarning) (warned w))"



text \<open>The call that the transport records for a request with the given parameters and
  options when no token is involved; and options and default parameters that involve
  no token.\<close>

definition requestCall :: "params \<Rightarrow> options \<Rightarrow> world \<Rightarrow> sent" where
  "requestCall ps opts w =
     wireCall (option_value (method' (composed opts w)) ''undefined'')
       (transformParams (defaultParams w ++ ps ++ [''format'' \<mapsto> PStr ''json'']))
       (fullUserAgent (userAgent (composed opts w)))"

definition tokenless :: "options \<Rightarrow> world \<Rightarrow> bool" where
  "tokenless opts w =
     (option_value (tokenType (composed opts w)) None = None
      \<and> defaultParams w (option_value (tokenName (composed opts w)) ''token'') \<noteq> Some PToken)"

text \<open>The transport calls recorded in \<open>w'\<close> are those recorded in \<open>w\<close> followed by
  calls that all satisfy \<open>ok\<close>. And the calls that \<open>internalRequest\<close> adds: each
  carries the user agent of the call or, when it belongs to a token request, the user
  agent that \<open>request\<close> computes from it; without a token type, the first.\<close>

definition callsAdded :: "world \<Rightarrow> world \<Rightarrow> (sent \<Rightarrow> bool) \<Rightarrow> bool" where
  "callsAdded w w' ok =
     (take (length (calls w)) (calls w') = calls w
      \<and> list_all ok (drop (length (calls w)) (calls w')))"


section \<open>Example sessions\<close>

text \<open>A session as its constructor leaves it, on a transport with the given script; a
  response that took 100 milliseconds; and the arguments of a plain \<open>GET\<close> request
  without a token.\<close>

definition newSession :: "params \<Rightarrow> options \<Rightarrow> response list \<Rightarrow> world" where
  "newSession ps opts rs = \<lparr> defaultParams = ps, defaultOptions = opts, tokens = Map.empty,
     warnedDefaultUserAgent = False, now = 0, script = rs, calls = [], timeouts = [],
     warned = [] \<rparr>"

definition reply :: "int \<Rightarrow> (string \<times> string) list \<Rightarrow> json \<Rightarrow> response" where
  "reply st hs b = \<lparr> status = st, headers = hs, body = b, elapsed = 100 \<rparr>"

definition exampleCall :: call where
  "exampleCall = \<lparr> ir_method = ''GET'',
     ir_params = [''action'' \<mapsto> WStr ''query'', ''format'' \<mapsto> WStr ''json''],
     ir_userAgent = DEFAULT_USER_AGENT, ir_warn = Warn, ir_tokenType = None,
     ir_tokenName = ''token'', ir_retryUntil = 65000, ir_retryAfterMaxlagSeconds = 5,
     ir_retryAfterReadonlySeconds = 30 \<rparr>"

text \<open>The arguments of a \<open>POST\<close> request that needs a \<open>csrf\<close> token, a body with
  the given error codes, a body that carries a \<open>csrf\<close> token, and the options of an
  edit.\<close>

definition tokenCall :: call where
  "tokenCall = \<lparr> ir_method = ''POST'',
     ir_params = [''action'' \<mapsto> WStr ''edit'', ''token'' \<mapsto> WToken, ''format'' \<mapsto> WStr ''json''],
     ir_userAgent = DEFAULT_USER_AGENT, ir_warn = Warn, ir_tokenType = Some ''csrf'',
     ir_tokenName = ''token'', ir_retryUntil = 65000, ir_retryAfterMaxlagSeconds = 5,
     ir_retryAfterReadonlySeconds = 30 \<rparr>"

definition errorsBody :: "string list \<Rightarrow> json" where
  "errorsBody codes = JObj [(''errors'', JArr (map (\<lambda>c. JObj [(''code'', JStr c)]) codes))]"

definition tokenBody :: "string \<Rightarrow> json" where
  "tokenBody t = JObj [(''query'', JObj [(''tokens'', JObj [(''csrftoken'', JStr t)])])]"

definition editOptions :: options where
  "editOptions = no_options\<lparr> method' := Some ''POST'', tokenType := Some (Some ''csrf''),
     userAgent := Some ''test'' \<rparr>"

text \<open>A page that asks to continue with \<open>c\<close> set to the given value.\<close>

definition continuePage :: "string \<Rightarrow> response" where
  "continuePage c = reply 200 [] (JObj [(''continue'', JObj [(''c'', JStr c)])])"

section \<open>Request combiner\<close>

text \<open>
  The combiner (\<open>combine.js\<close>, \<open>mixCombiningSessionInto\<close>) is not among the sources;
  only its tests are. The definitions of this section follow the description of the
  combiner: requests issued in one scheduling turn are collected as pending entries,
  compatible \<open>GET\<close> requests are merged, and when control goes back to the scheduler
  every pending entry is dispatched once through \<open>request\<close> and its outcome is
  delivered to all its waiters. Callers are numbered.
\<close>

text \<open>Modelled from the spec: the normalized parameter set of a request (\<open>combine.js\<close>
  is missing), the parameters with their normalized string values, in the order of the
  request's keys. The values are those of the source's \<open>transformParams\<close>.\<close>

type_synonym nparams = "(string \<times> string) list"

definition normalizeParams :: "(string \<times> pvalue) list \<Rightarrow> nparams" where
  "normalizeParams ps =
     List.map_filter
       (\<lambda>key. case transformParams (map_of ps) key of
                 Some (WStr s) \<Rightarrow> Some (key, s)
               | _ \<Rightarrow> None)
       (remdups (map fst ps))"

text \<open>Modelled from the spec: the compatibility test of \<open>combine.js\<close> (missing): two
  parameter sets are compatible if, for every parameter present in both, the normalized
  string values are equal.\<close>

definition compatible :: "nparams \<Rightarrow> nparams \<Rightarrow> bool" where
  "compatible ps qs =
     list_all (\<lambda>key. case (map_of ps key, map_of qs key) of
                       (Some v, Some v') \<Rightarrow> v = v'
                     | _ \<Rightarrow> True)
       (map fst ps)"

text \<open>Modelled from the spec: the union of two normalized parameter sets, which the merged
  record of \<open>combine.js\<close> (missing) shares.\<close>

definition unionParams :: "nparams \<Rightarrow> nparams \<Rightarrow> nparams" where
  "unionParams ps qs = ps @ filter (\<lambda>(key, v). map_of ps key = None) qs"

text \<open>Modelled from the spec: the pending-combination entry of \<open>combine.js\<close> (missing):
  the method, the normalized parameter set and the callers waiting for the result.\<close>

record pending =
  p_method :: string
  p_params :: nparams
  p_waiters :: "nat list"

text \<open>Modelled from the spec: only \<open>GET\<close> is combinable (\<open>combine.js\<close> is missing),
  and a request is merged into a pending entry with compatible parameters.\<close>

definition mergeable :: "pending \<Rightarrow> string \<Rightarrow> nparams \<Rightarrow> bool" where
  "mergeable e m ps = (p_method e = ''GET'' \<and> m = ''GET'' \<and> compatible (p_params e) ps)"

text \<open>Modelled from the spec: issuing a request to the combiner of \<open>combine.js\<close>
  (missing): it joins the first pending entry it can be merged into, which then holds
  the union of the parameters and one more waiter, and otherwise becomes a pending entry
  of its own.\<close>

fun issue :: "nat \<Rightarrow> string \<Rightarrow> nparams \<Rightarrow> pending list \<Rightarrow> pending list" where
  "issue caller m ps [] = [\<lparr> p_method = m, p_params = ps, p_waiters = [caller] \<rparr>]"
| "issue caller m ps (e # es) =
     (if mergeable e m ps
      then e\<lparr> p_params := unionParams (p_params e) ps, p_waiters := p_waiters e @ [caller] \<rparr> # es
      else e # issue caller m ps es)"

text \<open>Modelled from the spec: the parameters that the combiner of \<open>combine.js\<close> (missing)
  hands to \<open>request\<close> for a pending entry.\<close>

definition asParams :: "nparams \<Rightarrow> params" where
  "asParams ps = map_of (map (\<lambda>(key, v). (key, PStr v)) ps)"

text \<open>Modelled from the spec: the dispatch of the pending entries of \<open>combine.js\<close>
  (missing) once control is back with the scheduler: one \<open>request\<close> per entry, with
  the entry's method, whose outcome (the body, or the failure) goes to every waiter of
  the entry. The entries are taken in the order of their creation.\<close>

fun flush :: "options \<Rightarrow> pending list \<Rightarrow> world \<Rightarrow> (nat \<times> (error + json)) list \<times> world" where
  "flush opts [] w = ([], w)"
| "flush opts (e # es) w =
     (case request (asParams (p_params e)) (opts\<lparr> method' := Some (p_method e) \<rparr>) w of
        (result, w1) \<Rightarrow>
          (case flush opts es w1 of
             (delivered, w2) \<Rightarrow> (map (\<lambda>caller. (caller, result)) (p_waiters e) @ delivered, w2)))"

text \<open>Modelled from the spec: one scheduling turn of the combiner of \<open>combine.js\<close>
  (missing): the requests issued before any I/O, each by a caller with a method and
  parameters, then the dispatch of what is pending; and the options of a \<open>GET\<close>
  request.\<close>

definition pendingAfter :: "(nat \<times> string \<times> (string \<times> pvalue) list) list \<Rightarrow> pending list" where
  "pendingAfter reqs = foldl (\<lambda>es (caller, m, ps). issue caller m (normalizeParams ps) es) [] reqs"

definition turn ::
  "options \<Rightarrow> (nat \<times> string \<times> (string \<times> pvalue) list) list \<Rightarrow> world
     \<Rightarrow> (nat \<times> (error + json)) list \<times> world" where
  "turn opts reqs w = flush opts (pendingAfter reqs) w"

definition getOptions :: "options \<Rightarrow> options" where
  "getOptions opts = opts\<lparr> method' := Some ''GET'' \<rparr>"

section \<open>Properties of the normalizer\<close>































lemma split_on_free: "c \<notin> set s \<Longrightarrow> split_on c s = [s]"
  by (induction s) auto

lemma split_on_append:
  "c \<notin> set x \<Longrightarrow> split_on c (x @ c # rest) = x # split_on c rest"
  by (induction x) auto

lemma split_on_join_Cons:
  "list_all (\<lambda>x. c \<notin> set x) (x # xs) \<Longrightarrow> split_on c (join [c] (x # xs)) = x # xs"
proof (induction xs arbitrary: x)
  case Nil
  then show ?case by (simp add: split_on_free)
next
  case (Cons y ys)
  then show ?case by (simp add: split_on_append)
qed

lemma split_on_join:
  "xs \<noteq> [] \<Longrightarrow> list_all (\<lambda>x. c \<notin> set x) xs \<Longrightarrow> split_on c (join [c] xs) = xs"
  using split_on_join_Cons [of c] by (cases xs) blast+





text \<open>
  C7, as stated, fails: an element may itself contain the control character 0x1F, which
  the normalizer does not escape. For the collection \<open>['a|b', 'c\x1fd']\<close> the wire
  value splits into three pieces, whether or not the prefix is removed first.
\<close>

theorem transformParamArray_roundtrip_counterexample:
  "list_ex includes_pipe [SStr ''a|b'', SStr [CHR ''c'', CHR 0x1F, CHR ''d'']]
   \<and> transformParamValue (PArr [SStr ''a|b'', SStr [CHR ''c'', CHR 0x1F, CHR ''d'']])
       = Some (WStr (CHR 0x1F # ''a|b'' @ [CHR 0x1F, CHR ''c'', CHR 0x1F, CHR ''d'']))
   \<and> split_on (CHR 0x1F) (''a|b'' @ [CHR 0x1F, CHR ''c'', CHR 0x1F, CHR ''d''])
       = [''a|b'', ''c'', ''d'']
   \<and> split_on (CHR 0x1F) (CHR 0x1F # ''a|b'' @ [CHR 0x1F, CHR ''c'', CHR 0x1F, CHR ''d''])
       = [[], ''a|b'', ''c'', ''d'']
   \<and> map String_scalar [SStr ''a|b'', SStr [CHR ''c'', CHR 0x1F, CHR ''d'']]
       \<noteq> [''a|b'', ''c'', ''d'']"
  by (simp add: includes_pipe_def transformParamArray_def US_def)

text \<open>
  C7, amended. For every collection (array or set) of scalars in which at least one
  element's string form contains \<open>|\<close>, the normalized wire value is the character 0x1F
  followed by the elements' string forms joined with 0x1F; when no element's string form
  contains 0x1F, splitting what follows the prefix on 0x1F gives back exactly the
  sequence of element string forms. A collection with no element containing \<open>|\<close>
  is joined with \<open>|\<close>.
\<close>

theorem transformParamArray_wire_form:
  "(list_ex includes_pipe v \<longrightarrow>
      transformParamValue (PArr v) = Some (WStr (US # join [US] (map String_scalar v)))
      \<and> transformParamValue (PSet v) = Some (WStr (US # join [US] (map String_scalar v)))
      \<and> (list_all (\<lambda>e. US \<notin> set (String_scalar e)) v \<longrightarrow>
           split_on US (join [US] (map String_scalar v)) = map String_scalar v))
   \<and> (\<not> list_ex includes_pipe v \<longrightarrow>
      transformParamValue (PArr v) = Some (WStr (join ''|'' (map String_scalar v)))
      \<and> transformParamValue (PSet v) = Some (WStr (join ''|'' (map String_scalar v))))"
proof -
  have "split_on US (join [US] (map String_scalar v)) = map String_scalar v"
    if "list_ex includes_pipe v" and "list_all (\<lambda>e. US \<notin> set (String_scalar e)) v"
  proof -
    from that(1) have "map String_scalar v \<noteq> []" by (cases v) simp_all
    moreover from that(2) have "list_all (\<lambda>x. US \<notin> set x) (map String_scalar v)"
      by (simp add: list_all_iff)
    ultimately show ?thesis by (rule split_on_join)
  qed
  then show ?thesis
    by (simp add: transformParamArray_def)
qed

theorem transformParamArray_wire_form_witness:
  "transformParamValue (PArr [SStr ''a|b'', SNum (ofInt 7)])
     = Some (WStr (CHR 0x1F # ''a|b'' @ CHR 0x1F # ''7''))
   \<and> split_on (CHR 0x1F) (''a|b'' @ CHR 0x1F # ''7'') = [''a|b'', ''7'']
   \<and> transformParamValue (PSet [SStr ''a'', SNum (ofInt 7)]) = Some (WStr ''a|7'')"
proof -
  have n: "String_number (ofInt 7) = ''7''"
    by code_simp
  have p: "list_ex includes_pipe [SStr ''a|b'', SNum (ofInt 7)]"
    by (simp add: includes_pipe_def)
  have q: "list_all (\<lambda>e. US \<notin> set (String_scalar e)) [SStr ''a|b'', SNum (ofInt 7)]"
    by (simp add: US_def n)
  have r: "\<not> list_ex includes_pipe [SStr ''a'', SNum (ofInt 7)]"
    by (simp add: includes_pipe_def n)
  from transformParamArray_wire_form [of "[SStr ''a|b'', SNum (ofInt 7)]"] p q
  have "transformParamValue (PArr [SStr ''a|b'', SNum (ofInt 7)])
          = Some (WStr (US # join [US] (map String_scalar [SStr ''a|b'', SNum (ofInt 7)])))"
    and "split_on US (join [US] (map String_scalar [SStr ''a|b'', SNum (ofInt 7)]))
          = map String_scalar [SStr ''a|b'', SNum (ofInt 7)]"
    by blast+
  moreover from transformParamArray_wire_form [of "[SStr ''a'', SNum (ofInt 7)]"] r
  have "transformParamValue (PSet [SStr ''a'', SNum (ofInt 7)])
          = Some (WStr (join ''|'' (map String_scalar [SStr ''a'', SNum (ofInt 7)])))"
    by blast
  ultimately show ?thesis
    by (simp add: US_def n)
qed

section \<open>Properties of the response classifier\<close>

lemma map_of_setProp: "map_of (setProp key v kvs) key = Some v"
  by (induction kvs) auto

lemma tagModule_object: "is_object warning \<Longrightarrow> tagModule (modname, warning) = Some (withModule (modname, warning))"
  by (cases warning) (simp_all add: withModule_def)

lemma those_tagModule:
  "list_all (\<lambda>mw. is_object (snd mw)) kvs \<Longrightarrow> those (map tagModule kvs) = Some (map withModule kvs)"
  by (induction kvs) (auto simp: tagModule_object)

text \<open>
  C8, as stated, fails: the classifier moves \<open>main\<close> to the end only when it is
  the first module of the mapping. For the mapping with the modules \<open>query\<close>,
  \<open>main\<close>, \<open>pageprops\<close> in this order, the entry of \<open>main\<close> stays in the middle.
\<close>

theorem responseWarnings_mapping_counterexample:
  "(case responseWarnings (JObj [(''warnings'', JObj [
        (''query'', JObj [(''*'', JStr ''a'')]),
        (''main'', JObj [(''*'', JStr ''b'')]),
        (''pageprops'', JObj [(''*'', JStr ''c'')])])]) of
      Inl e \<Rightarrow> []
    | Inr (warnings, response') \<Rightarrow> warnings)
   = [JObj [(''*'', JStr ''a''), (''module'', JStr ''query'')],
      JObj [(''*'', JStr ''b''), (''module'', JStr ''main'')],
      JObj [(''*'', JStr ''c''), (''module'', JStr ''pageprops'')]]"
  by (simp add: responseWarnings_def)

text \<open>
  C8, amended. For every response body whose \<open>warnings\<close> member is a nonempty mapping
  from module names to warning objects, the classifier returns a list with one entry per
  module, each entry being the warning object with its member \<open>module\<close> set to the
  name of its module; when \<open>main\<close> is the first module of the mapping its entry is
  moved to the end of the list, and otherwise the entries keep the order of the mapping.
\<close>

theorem responseWarnings_mapping:
  assumes "getProp response ''warnings'' = Some (JObj ((modname, warning) # rest))"
    and "list_all (\<lambda>mw. is_object (snd mw)) ((modname, warning) # rest)"
  shows "(case responseWarnings response of
            Inl e \<Rightarrow> False
          | Inr (warnings, response') \<Rightarrow>
              warnings = map withModule (if modname = ''main'' then rest @ [(modname, warning)]
                                         else (modname, warning) # rest)
              \<and> length warnings = length ((modname, warning) # rest))
         \<and> list_all (\<lambda>mw. getProp (withModule mw) ''module'' = Some (JStr (fst mw)))
              ((modname, warning) # rest)"
proof -
  from assms(1) have nn: "response \<noteq> JNull" by (cases response) auto
  have a: "list_all (\<lambda>mw. is_object (snd mw)) (rest @ [(modname, warning)])"
    using assms(2) by simp
  have "list_all (\<lambda>mw. getProp (withModule mw) ''module'' = Some (JStr (fst mw))) kvs" for kvs
    by (induction kvs) (auto simp: withModule_def map_of_setProp)
  moreover have "(case responseWarnings response of
            Inl e \<Rightarrow> False
          | Inr (warnings, response') \<Rightarrow>
              warnings = map withModule (if modname = ''main'' then rest @ [(modname, warning)]
                                         else (modname, warning) # rest)
              \<and> length warnings = length ((modname, warning) # rest))"
  proof (cases "modname = ''main''")
    case True
    have "mainToEnd (entries (JObj ((modname, warning) # rest))) = Some (rest @ [(modname, warning)])"
      using True by simp
    with assms(1) nn True those_tagModule [OF a] show ?thesis
      by (simp add: responseWarnings_def del: mainToEnd.simps)
  next
    case False
    have "mainToEnd (entries (JObj ((modname, warning) # rest))) = Some ((modname, warning) # rest)"
      using False by simp
    with assms(1) nn False those_tagModule [OF assms(2)] show ?thesis
      by (simp add: responseWarnings_def del: mainToEnd.simps)
  qed
  ultimately show ?thesis by blast
qed

theorem responseWarnings_mapping_witness:
  "(case responseWarnings (JObj [(''warnings'', JObj [
        (''main'', JObj [(''*'', JStr ''b'')]),
        (''query'', JObj [(''*'', JStr ''a'')])])]) of
      Inl e \<Rightarrow> False
    | Inr (warnings, response') \<Rightarrow>
        warnings = [JObj [(''*'', JStr ''a''), (''module'', JStr ''query'')],
                    JObj [(''*'', JStr ''b''), (''module'', JStr ''main'')]])"
  using responseWarnings_mapping [of
      "JObj [(''warnings'', JObj [(''main'', JObj [(''*'', JStr ''b'')]),
                                   (''query'', JObj [(''*'', JStr ''a'')])])]"
      "''main''" "JObj [(''*'', JStr ''b'')]" "[(''query'', JObj [(''*'', JStr ''a'')])]"]
  by (simp add: withModule_def split: sum.splits prod.splits)

section \<open>Case analysis and induction for the requests\<close>

lemma internalRequest_unfold:
  "internalRequest c w =
     (case resolveToken c w of
        (Inl e, w1) \<Rightarrow> (Inl e, w1)
      | (Inr tokenParams, w1) \<Rightarrow>
          (case dispatch (ir_method c) (sentParams c tokenParams) (ir_userAgent c) w1 of
             (Inl e, w2) \<Rightarrow> (Inl e, w2)
           | (Inr r, w2) \<Rightarrow>
               (case evaluate c (usedToken tokenParams) r w2 of
                  (Retry millis, w3) \<Rightarrow> internalRequest c (sleep millis w3)
                | (Throw e, w3) \<Rightarrow> (Inl e, w3)
                | (Return b, w3) \<Rightarrow> (Inr b, w3))))"
  by (subst internalRequest.simps) (simp only: resolveToken_def sentParams_def usedToken_def)

lemma internalRequest_verdict:
  assumes "resolveToken c w = (Inr tokenParams, w1)"
    and "dispatch (ir_method c) (sentParams c tokenParams) (ir_userAgent c) w1 = (Inr r, w2)"
    and "evaluate c (usedToken tokenParams) r w2 = (v, w3)"
  shows "internalRequest c w =
     (case v of
        Retry millis \<Rightarrow> internalRequest c (sleep millis w3)
      | Throw e \<Rightarrow> (Inl e, w3)
      | Return b \<Rightarrow> (Inr b, w3))"
  by (subst internalRequest_unfold) (simp add: assms split: verdict.splits)

lemma resolveToken_cases [case_names none type_error token_failed token]:
  obtains
    (none) "ir_params c (ir_tokenName c) \<noteq> Some WToken" "resolveToken c w = (Inr None, w)"
  | (type_error) "ir_params c (ir_tokenName c) = Some WToken" "ir_tokenType c = None"
      "resolveToken c w = (Inl TypeError, w)"
  | (token_failed) type e w1 where "ir_params c (ir_tokenName c) = Some WToken"
      "ir_tokenType c = Some type" "getToken type (tokenOptions c w) w = (Inl e, w1)"
      "resolveToken c w = (Inl e, w1)"
  | (token) type token w1 where "ir_params c (ir_tokenName c) = Some WToken"
      "ir_tokenType c = Some type" "getToken type (tokenOptions c w) w = (Inr token, w1)"
      "resolveToken c w = (Inr (Some [ir_tokenName c \<mapsto>
          (case token of Some t \<Rightarrow> WStr t | None \<Rightarrow> WUndefined)]), w1)"
proof (cases "ir_params c (ir_tokenName c) = Some WToken")
  case False
  then show ?thesis using none by (simp add: resolveToken_def)
next
  case True
  show ?thesis
  proof (cases "ir_tokenType c")
    case None
    with True show ?thesis using type_error by (simp add: resolveToken_def)
  next
    case (Some type)
    obtain res w1 where g: "getToken type (tokenOptions c w) w = (res, w1)" by fastforce
    show ?thesis
    proof (cases res)
      case (Inl e)
      with True Some g show ?thesis
        using token_failed [of type e w1] by (simp add: resolveToken_def tokenOptions_def)
    next
      case (Inr token)
      with True Some g show ?thesis
        using token [of type token w1] by (simp add: resolveToken_def tokenOptions_def)
    qed
  qed
qed

lemma internalRequest_cases [case_names token_error dispatch_error retry throw return]:
  obtains
    (token_error) e w1 where "resolveToken c w = (Inl e, w1)" "internalRequest c w = (Inl e, w1)"
  | (dispatch_error) tokenParams w1 e w2 where "resolveToken c w = (Inr tokenParams, w1)"
      "dispatch (ir_method c) (sentParams c tokenParams) (ir_userAgent c) w1 = (Inl e, w2)"
      "internalRequest c w = (Inl e, w2)"
  | (retry) tokenParams w1 r w2 millis w3 where "resolveToken c w = (Inr tokenParams, w1)"
      "dispatch (ir_method c) (sentParams c tokenParams) (ir_userAgent c) w1 = (Inr r, w2)"
      "evaluate c (usedToken tokenParams) r w2 = (Retry millis, w3)"
      "internalRequest c w = internalRequest c (sleep millis w3)"
  | (throw) tokenParams w1 r w2 e w3 where "resolveToken c w = (Inr tokenParams, w1)"
      "dispatch (ir_method c) (sentParams c tokenParams) (ir_userAgent c) w1 = (Inr r, w2)"
      "evaluate c (usedToken tokenParams) r w2 = (Throw e, w3)"
      "internalRequest c w = (Inl e, w3)"
  | (return) tokenParams w1 r w2 b w3 where "resolveToken c w = (Inr tokenParams, w1)"
      "dispatch (ir_method c) (sentParams c tokenParams) (ir_userAgent c) w1 = (Inr r, w2)"
      "evaluate c (usedToken tokenParams) r w2 = (Return b, w3)"
      "internalRequest c w = (Inr b, w3)"
proof -
  obtain x w1 where t: "resolveToken c w = (x, w1)" by fastforce
  show ?thesis
  proof (cases x)
    case (Inl e)
    with t show ?thesis
      using token_error [of e w1] by (simp add: internalRequest_unfold [of c w])
  next
    case (Inr tokenParams)
    obtain y w2 where d: "dispatch (ir_method c) (sentParams c tokenParams) (ir_userAgent c) w1 = (y, w2)"
      by fastforce
    show ?thesis
    proof (cases y)
      case (Inl e)
      with t Inr d show ?thesis
        using dispatch_error [of tokenParams w1 e w2] by (simp add: internalRequest_unfold [of c w])
    next
      case r: (Inr r)
      obtain v w3 where ev: "evaluate c (usedToken tokenParams) r w2 = (v, w3)" by fastforce
      note iv = internalRequest_verdict [OF t [unfolded Inr] d [unfolded r] ev]
      show ?thesis
      proof (cases v)
        case (Retry millis)
        with iv t Inr d r ev show ?thesis using retry [of tokenParams w1 r w2 millis w3] by simp
      next
        case (Throw e)
        with iv t Inr d r ev show ?thesis using throw [of tokenParams w1 r w2 e w3] by simp
      next
        case (Return b)
        with iv t Inr d r ev show ?thesis using return [of tokenParams w1 r w2 b w3] by simp
      qed
    qed
  qed
qed

lemma getToken_unfold:
  "getToken type opts w =
     (if tokens w type = None
      then (case tokenPages type (tokenRequestOptions opts) [''continue'' \<mapsto> PUndefined] w of
              (Inl e, w1) \<Rightarrow> (Inl e, w1)
            | (Inr u, w1) \<Rightarrow> (Inr (tokens w1 type), w1))
      else (Inr (tokens w type), w))"
  by (subst getToken.simps) (simp only: tokenRequestOptions_def)

lemma request_unfold:
  "request ps opts w = internalRequest (fst (prepare ps opts w)) (snd (prepare ps opts w))"
  by (simp add: request.simps split: prod.splits)

lemma engine_induct [case_names internalRequest getToken tokenPages request]:
  assumes ir: "\<And>c w.
      (\<And>type. ir_params c (ir_tokenName c) = Some WToken \<Longrightarrow> ir_tokenType c = Some type \<Longrightarrow>
          Q type (tokenOptions c w) w) \<Longrightarrow>
      (\<And>tokenParams w1 r w2 millis w3.
          resolveToken c w = (Inr tokenParams, w1) \<Longrightarrow>
          dispatch (ir_method c) (sentParams c tokenParams) (ir_userAgent c) w1 = (Inr r, w2) \<Longrightarrow>
          evaluate c (usedToken tokenParams) r w2 = (Retry millis, w3) \<Longrightarrow>
          P c (sleep millis w3)) \<Longrightarrow>
      P c w"
    and gt: "\<And>type opts w.
      (tokens w type = None \<Longrightarrow>
         R type (tokenRequestOptions opts) [''continue'' \<mapsto> PUndefined] w) \<Longrightarrow>
      Q type opts w"
    and tp: "\<And>type opts continueParams w.
      S (tokenQuery type ++ continueParams) opts w \<Longrightarrow>
      (\<And>response w1 continueParams'.
          request (tokenQuery type ++ continueParams) opts w = (Inr response, w1) \<Longrightarrow>
          tokenOf type response = None \<Longrightarrow>
          continueParamsOf response = Some continueParams' \<Longrightarrow>
          R type opts continueParams' w1) \<Longrightarrow>
      R type opts continueParams w"
    and rq: "\<And>ps opts w. P (fst (prepare ps opts w)) (snd (prepare ps opts w)) \<Longrightarrow> S ps opts w"
  shows "P c w" and "Q type opts w" and "R type opts continueParams w" and "S ps opts w"
proof (induct c w and type opts w and type opts continueParams w and ps opts w
    rule: internalRequest_getToken_tokenPages_request.induct)
  case (1 c w)
  show ?case
  proof (rule ir)
    fix type
    assume "ir_params c (ir_tokenName c) = Some WToken" "ir_tokenType c = Some type"
    from "1.hyps"(1) [OF this] show "Q type (tokenOptions c w) w"
      by (simp only: tokenOptions_def)
  next
    fix tokenParams w1 r w2 millis w3
    assume t: "resolveToken c w = (Inr tokenParams, w1)"
      and d: "dispatch (ir_method c) (sentParams c tokenParams) (ir_userAgent c) w1 = (Inr r, w2)"
      and e: "evaluate c (usedToken tokenParams) r w2 = (Retry millis, w3)"
    show "P c (sleep millis w3)"
      by (rule "1.hyps"(2) [OF t [symmetric, unfolded resolveToken_def] refl
            d [symmetric, unfolded sentParams_def] refl
            e [symmetric, unfolded usedToken_def] refl])
  qed
next
  case (2 type opts w)
  show ?case
    by (rule gt) (use "2.hyps" in \<open>simp only: tokenRequestOptions_def\<close>)
next
  case (3 type opts continueParams w)
  show ?case
  proof (rule tp)
    show "S (tokenQuery type ++ continueParams) opts w" by (rule "3.hyps"(1))
  next
    fix response w1 continueParams'
    assume "request (tokenQuery type ++ continueParams) opts w = (Inr response, w1)"
      "tokenOf type response = None" "continueParamsOf response = Some continueParams'"
    from "3.hyps"(2) [OF this(1) [symmetric] refl this(2,3)]
    show "R type opts continueParams' w1" .
  qed
next
  case (4 ps opts w)
  show ?case
    by (rule rq) (rule "4.hyps", simp)
qed

section \<open>Properties of the retry and dispatch engine\<close>

lemma evaluate_status:
  "status r \<noteq> 200 \<Longrightarrow> evaluate c u r w = (Throw (HttpStatus (status r)), w)"
  by (simp add: evaluate_def)

lemma evaluate_header:
  "status r = 200 \<Longrightarrow> map_of (headers r) ''retry-after'' = Some v \<Longrightarrow> parseInt v = Some s \<Longrightarrow>
   now w + 1000 * of_int s \<le> ir_retryUntil c \<Longrightarrow>
   evaluate c u r w = (Retry (1000 * of_int s), w)"
  by (simp add: evaluate_def retryIfBefore_def)

lemma evaluate_maxlag:
  "status r = 200 \<Longrightarrow> map_of (headers r) ''retry-after'' = None \<Longrightarrow>
   responseErrors (body r) = Inr errors \<Longrightarrow> hasErrorCode ''maxlag'' errors = Inr True \<Longrightarrow>
   now w + 1000 * ir_retryAfterMaxlagSeconds c \<le> ir_retryUntil c \<Longrightarrow>
   evaluate c u r w = (Retry (1000 * ir_retryAfterMaxlagSeconds c), w)"
  by (simp add: evaluate_def maxlagStep_def retryIfBefore_def)

lemma evaluate_readonly:
  "status r = 200 \<Longrightarrow> map_of (headers r) ''retry-after'' = None \<Longrightarrow>
   responseErrors (body r) = Inr errors \<Longrightarrow> hasErrorCode ''maxlag'' errors = Inr maxlag \<Longrightarrow>
   (maxlag \<longrightarrow> \<not> now w + 1000 * ir_retryAfterMaxlagSeconds c \<le> ir_retryUntil c) \<Longrightarrow>
   hasErrorCode ''readonly'' errors = Inr True \<Longrightarrow>
   now w + 1000 * ir_retryAfterReadonlySeconds c \<le> ir_retryUntil c \<Longrightarrow>
   evaluate c u r w = (Retry (1000 * ir_retryAfterReadonlySeconds c), w)"
  by (simp add: evaluate_def maxlagStep_def readonlyStep_def retryIfBefore_def)

lemma evaluate_fallthrough:
  "status r = 200 \<Longrightarrow> responseErrors (body r) = Inr errors \<Longrightarrow>
   noEarlierRetry c r errors w \<Longrightarrow>
   evaluate c u r w = badtokenStep c u errors (body r) w"
  by (auto simp: evaluate_def maxlagStep_def readonlyStep_def noEarlierRetry_def
      split: option.splits sum.splits if_splits)

lemma badtokenStep_retry:
  "hasErrorCode ''badtoken'' errors = Inr True \<Longrightarrow> now w \<le> ir_retryUntil c \<Longrightarrow>
   badtokenStep c True errors b w = (Retry 0, w\<lparr> tokens := Map.empty \<rparr>)"
  by (simp add: badtokenStep_def retryIfBefore_def)

lemma badtokenStep_late:
  "hasErrorCode ''badtoken'' errors = Inr True \<Longrightarrow> \<not> now w \<le> ir_retryUntil c \<Longrightarrow>
   badtokenStep c True errors b w = classify c errors b (w\<lparr> tokens := Map.empty \<rparr>)"
  by (simp add: badtokenStep_def retryIfBefore_def)

lemma badtokenStep_no_token:
  "badtokenStep c False errors b w = classify c errors b w"
  by (simp add: badtokenStep_def)

lemma badtokenStep_no_badtoken:
  "hasErrorCode ''badtoken'' errors = Inr False \<Longrightarrow>
   badtokenStep c u errors b w = classify c errors b w"
  by (simp add: badtokenStep_def)

lemma tokens_callWarn [simp]: "tokens (snd (callWarn h e w)) = tokens w"
  by (induction h e w rule: callWarn.induct) (auto split: option.splits)

lemma tokens_classify [simp]: "tokens (snd (classify c errors b w)) = tokens w"
proof -
  have "tokens (snd (case callWarn h e w of (Inl e', w') \<Rightarrow> (Throw e', w')
                      | (Inr u, w') \<Rightarrow> (Return b', w'))) = tokens w" for h e b'
    using tokens_callWarn [of h e w]
    by (cases "callWarn h e w") (auto split: sum.splits)
  then show ?thesis
    by (simp add: classify_def split: option.splits sum.splits prod.splits)
qed

lemma classify_no_retry: "fst (classify c errors b w) \<noteq> Retry millis"
  by (auto simp: classify_def split: option.splits sum.splits prod.splits)

lemma classify_errors:
  "e \<noteq> JNull \<Longrightarrow> classify c (JArr (e # es)) b w = (Throw (ApiErrors (e # es)), w)"
  by (simp add: classify_def throwIfErrors_def)

lemma classify_success:
  "responseWarnings b = Inr ([], b') \<Longrightarrow> classify c (JArr []) b w = (Return b', w)"
  by (simp add: classify_def throwIfErrors_def)

text \<open>
  C2. A response whose status is not 200 makes the request fail with the error about the
  status, whatever its headers and its body are: nothing is waited for, no further call
  is made, and the world is left as the transport call left it.
\<close>

theorem non200_is_fatal:
  assumes "resolveToken c w = (Inr tokenParams, w1)"
    and "dispatch (ir_method c) (sentParams c tokenParams) (ir_userAgent c) w1 = (Inr r, w2)"
    and "status r \<noteq> 200"
  shows "internalRequest c w = (Inl (HttpStatus (status r)), w2)
         \<and> evaluate c (usedToken tokenParams) r w2 = (Throw (HttpStatus (status r)), w2)
         \<and> timeouts w2 = timeouts w1 \<and> tokens w2 = tokens w1 \<and> warned w2 = warned w1
         \<and> length (calls w2) = Suc (length (calls w1))"
proof -
  from assms(2) have "timeouts w2 = timeouts w1 \<and> tokens w2 = tokens w1 \<and> warned w2 = warned w1
         \<and> length (calls w2) = Suc (length (calls w1))"
    by (auto simp: dispatch_def internalGet_def internalPost_def transport_def
        split: if_splits list.splits prod.splits)
  with internalRequest_verdict [OF assms(1,2) evaluate_status [OF assms(3)]]
    evaluate_status [OF assms(3)]
  show ?thesis by simp
qed

lemma parseInt_1: "parseInt ''1'' = Some 1"
  by (simp add: parseInt_def is_prefix_def is_space_def radix_digit_def hex_val_def radix_value_def)

theorem non200_is_fatal_witness:
  "internalRequest exampleCall
     (newSession Map.empty no_options [reply 503 [(''retry-after'', ''1'')] (JObj [])])
   = (Inl (HttpStatus 503),
      (newSession Map.empty no_options [reply 503 [(''retry-after'', ''1'')] (JObj [])])
        \<lparr> script := [],
           calls := [Get (sentParams exampleCall None) DEFAULT_USER_AGENT],
           now := 100 \<rparr>)"
proof -
  let ?w = "newSession Map.empty no_options [reply 503 [(''retry-after'', ''1'')] (JObj [])]"
  let ?w2 = "?w\<lparr> script := [], calls := [Get (sentParams exampleCall None) DEFAULT_USER_AGENT],
           now := 100 \<rparr>"
  have t: "resolveToken exampleCall ?w = (Inr None, ?w)"
    by (simp add: resolveToken_def exampleCall_def)
  have d: "dispatch (ir_method exampleCall) (sentParams exampleCall None) (ir_userAgent exampleCall) ?w
           = (Inr (reply 503 [(''retry-after'', ''1'')] (JObj [])), ?w2)"
    by (simp add: dispatch_def internalGet_def transport_def exampleCall_def newSession_def reply_def)
  have s: "status (reply 503 [(''retry-after'', ''1'')] (JObj [])) \<noteq> 200"
    by (simp add: reply_def)
  from non200_is_fatal [OF t d s] show ?thesis
    by (simp add: reply_def)
qed

lemma internalRequest_classified:
  assumes "resolveToken c w = (Inr tokenParams, w1)"
    and "dispatch (ir_method c) (sentParams c tokenParams) (ir_userAgent c) w1 = (Inr r, w2)"
    and "evaluate c (usedToken tokenParams) r w2 = classify c errors b w'"
  shows "internalRequest c w =
           (case classify c errors b w' of
              (Retry millis, w3) \<Rightarrow> internalRequest c (sleep millis w3)
            | (Throw e, w3) \<Rightarrow> (Inl e, w3)
            | (Return b', w3) \<Rightarrow> (Inr b', w3))"
    and "tokens (snd (internalRequest c w)) = tokens w'"
proof -
  obtain v w3 where cl: "classify c errors b w' = (v, w3)" by fastforce
  from assms(3) cl have ev: "evaluate c (usedToken tokenParams) r w2 = (v, w3)" by simp
  note ir = internalRequest_verdict [OF assms(1,2) ev]
  from ir cl show "internalRequest c w =
           (case classify c errors b w' of
              (Retry millis, w3) \<Rightarrow> internalRequest c (sleep millis w3)
            | (Throw e, w3) \<Rightarrow> (Inl e, w3)
            | (Return b', w3) \<Rightarrow> (Inr b', w3))"
    by (simp split: verdict.splits)
  from classify_no_retry [of c errors b w'] cl have nr: "\<And>millis. v \<noteq> Retry millis" by simp
  from tokens_classify [of c errors b w'] cl have "tokens w3 = tokens w'" by simp
  with ir nr show "tokens (snd (internalRequest c w)) = tokens w'"
    by (cases v) (simp_all, blast)
qed

text \<open>
  C1, as stated, fails where it says that no retry occurs once the delay would exceed the
  deadline: the evaluation goes on with the later steps, and one of them may retry. Here
  the response carries \<open>retry-after: 100\<close> against a budget of 65 seconds, and a
  \<open>badtoken\<close> error for a request that used a token: the verdict is a retry without
  delay, and the request ends in success after a fresh token has been fetched.
\<close>

theorem retry_within_deadline_counterexample:
  "map_of (headers (reply 200 [(''retry-after'', ''100'')] (errorsBody [''badtoken''])))
      ''retry-after'' = Some ''100''
   \<and> parseInt ''100'' = Some 100
   \<and> \<not> (100 + 1000 * 100 \<le> ir_retryUntil tokenCall)
   \<and> fst (evaluate tokenCall True (reply 200 [(''retry-after'', ''100'')] (errorsBody [''badtoken'']))
        ((newSession Map.empty no_options [])\<lparr> now := 100 \<rparr>)) = Retry 0
   \<and> fst (request [''action'' \<mapsto> PStr ''edit''] editOptions
        ((newSession Map.empty no_options
           [reply 200 [(''retry-after'', ''100'')] (errorsBody [''badtoken'']),
            reply 200 [] (tokenBody ''fresh''),
            reply 200 [] (JObj [(''edit'', JStr ''Success'')])])
         \<lparr> tokens := [''csrf'' \<mapsto> ''stale''] \<rparr>))
       = Inr (JObj [(''edit'', JStr ''Success'')])
   \<and> timeouts (snd (request [''action'' \<mapsto> PStr ''edit''] editOptions
        ((newSession Map.empty no_options
           [reply 200 [(''retry-after'', ''100'')] (errorsBody [''badtoken'']),
            reply 200 [] (tokenBody ''fresh''),
            reply 200 [] (JObj [(''edit'', JStr ''Success'')])])
         \<lparr> tokens := [''csrf'' \<mapsto> ''stale''] \<rparr>))) = [0]"
  by code_simp

text \<open>
  C3, as stated, fails when an earlier step retries first: with \<open>retry-after: 1\<close> on
  a \<open>badtoken\<close> response the request is retried after one second, and the token cache
  is not cleared.
\<close>

theorem badtoken_clears_cache_counterexample:
  "hasErrorCode ''badtoken'' (JArr [JObj [(''code'', JStr ''badtoken'')]]) = Inr True
   \<and> fst (evaluate tokenCall True (reply 200 [(''retry-after'', ''1'')] (errorsBody [''badtoken'']))
        ((newSession Map.empty no_options [])\<lparr> now := 100, tokens := [''csrf'' \<mapsto> ''stale''] \<rparr>))
       = Retry 1000
   \<and> tokens (snd (evaluate tokenCall True
        (reply 200 [(''retry-after'', ''1'')] (errorsBody [''badtoken'']))
        ((newSession Map.empty no_options [])\<lparr> now := 100, tokens := [''csrf'' \<mapsto> ''stale''] \<rparr>)))
       ''csrf'' = Some ''stale''
   \<and> timeouts (snd (request [''action'' \<mapsto> PStr ''edit''] editOptions
        ((newSession Map.empty no_options
           [reply 200 [(''retry-after'', ''1'')] (errorsBody [''badtoken'']),
            reply 200 [] (JObj [(''edit'', JStr ''Success'')])])
         \<lparr> tokens := [''csrf'' \<mapsto> ''stale''] \<rparr>))) = [1000]
   \<and> tokens (snd (request [''action'' \<mapsto> PStr ''edit''] editOptions
        ((newSession Map.empty no_options
           [reply 200 [(''retry-after'', ''1'')] (errorsBody [''badtoken'']),
            reply 200 [] (JObj [(''edit'', JStr ''Success'')])])
         \<lparr> tokens := [''csrf'' \<mapsto> ''stale''] \<rparr>))) ''csrf'' = Some ''stale''"
  by code_simp

text \<open>
  C1, amended. For every dispatched request whose response has status 200: if a
  \<open>retry-after\<close> header is present, reads as the number \<open>s\<close> and
  \<open>now + 1000 s\<close> is within the deadline, the engine waits that long and enters
  \<open>internalRequest\<close> again with the same arguments (method, original parameters,
  deadline); without such a header, a \<open>maxlag\<close> error retries likewise after
  \<open>retryAfterMaxlagSeconds\<close>, and a \<open>readonly\<close> error after
  \<open>retryAfterReadonlySeconds\<close> when no \<open>maxlag\<close> retry is taken. When none of
  these steps retries, the evaluation goes on with the bad-token step, and, for a request
  without a token or a body without \<open>badtoken\<close>, with the classification of the
  response: the errors of the body are thrown as \<open>ApiErrors\<close>, a body without errors
  is returned. No error about a timeout exists.
\<close>

theorem retry_within_deadline:
  assumes "resolveToken c w = (Inr tokenParams, w1)"
    and "dispatch (ir_method c) (sentParams c tokenParams) (ir_userAgent c) w1 = (Inr r, w2)"
    and "status r = 200"
  shows
   "(map_of (headers r) ''retry-after'' = Some v \<and> parseInt v = Some s
       \<and> now w2 + 1000 * of_int s \<le> ir_retryUntil c
     \<longrightarrow> internalRequest c w = internalRequest c (sleep (1000 * of_int s) w2))
    \<and> (map_of (headers r) ''retry-after'' = None \<and> responseErrors (body r) = Inr errors
        \<and> hasErrorCode ''maxlag'' errors = Inr True
        \<and> now w2 + 1000 * ir_retryAfterMaxlagSeconds c \<le> ir_retryUntil c
     \<longrightarrow> internalRequest c w = internalRequest c (sleep (1000 * ir_retryAfterMaxlagSeconds c) w2))
    \<and> (map_of (headers r) ''retry-after'' = None \<and> responseErrors (body r) = Inr errors
        \<and> hasErrorCode ''maxlag'' errors = Inr maxlag
        \<and> (maxlag \<longrightarrow> \<not> now w2 + 1000 * ir_retryAfterMaxlagSeconds c \<le> ir_retryUntil c)
        \<and> hasErrorCode ''readonly'' errors = Inr True
        \<and> now w2 + 1000 * ir_retryAfterReadonlySeconds c \<le> ir_retryUntil c
     \<longrightarrow> internalRequest c w = internalRequest c (sleep (1000 * ir_retryAfterReadonlySeconds c) w2))
    \<and> (responseErrors (body r) = Inr errors \<and> noEarlierRetry c r errors w2
     \<longrightarrow> evaluate c (usedToken tokenParams) r w2
           = badtokenStep c (usedToken tokenParams) errors (body r) w2
         \<and> (\<not> usedToken tokenParams \<or> hasErrorCode ''badtoken'' errors = Inr False
            \<longrightarrow> evaluate c (usedToken tokenParams) r w2 = classify c errors (body r) w2
                \<and> (\<forall>e es. errors = JArr (e # es) \<and> e \<noteq> JNull
                      \<longrightarrow> internalRequest c w = (Inl (ApiErrors (e # es)), w2))
                \<and> (\<forall>b'. errors = JArr [] \<and> responseWarnings (body r) = Inr ([], b')
                      \<longrightarrow> internalRequest c w = (Inr b', w2))))"
proof -
  note iv = internalRequest_verdict [OF assms(1,2)]
  have a: "internalRequest c w = internalRequest c (sleep (1000 * of_int s) w2)"
    if "map_of (headers r) ''retry-after'' = Some v" "parseInt v = Some s"
      "now w2 + 1000 * of_int s \<le> ir_retryUntil c"
    using iv [OF evaluate_header [OF assms(3) that]] by simp
  have b: "internalRequest c w = internalRequest c (sleep (1000 * ir_retryAfterMaxlagSeconds c) w2)"
    if "map_of (headers r) ''retry-after'' = None" "responseErrors (body r) = Inr errors"
      "hasErrorCode ''maxlag'' errors = Inr True"
      "now w2 + 1000 * ir_retryAfterMaxlagSeconds c \<le> ir_retryUntil c"
    using iv [OF evaluate_maxlag [OF assms(3) that]] by simp
  have c: "internalRequest c w = internalRequest c (sleep (1000 * ir_retryAfterReadonlySeconds c) w2)"
    if "map_of (headers r) ''retry-after'' = None" "responseErrors (body r) = Inr errors"
      "hasErrorCode ''maxlag'' errors = Inr maxlag"
      "maxlag \<longrightarrow> \<not> now w2 + 1000 * ir_retryAfterMaxlagSeconds c \<le> ir_retryUntil c"
      "hasErrorCode ''readonly'' errors = Inr True"
      "now w2 + 1000 * ir_retryAfterReadonlySeconds c \<le> ir_retryUntil c"
    using iv [OF evaluate_readonly [OF assms(3) that]] by simp
  have d1: "evaluate c (usedToken tokenParams) r w2
           = badtokenStep c (usedToken tokenParams) errors (body r) w2"
    if "responseErrors (body r) = Inr errors" "noEarlierRetry c r errors w2"
    using evaluate_fallthrough [OF assms(3) that] .
  have d2: "evaluate c (usedToken tokenParams) r w2 = classify c errors (body r) w2"
    if "responseErrors (body r) = Inr errors" "noEarlierRetry c r errors w2"
      "\<not> usedToken tokenParams \<or> hasErrorCode ''badtoken'' errors = Inr False"
    using d1 [OF that(1,2)] that(3)
    by (auto simp: badtokenStep_no_token badtokenStep_no_badtoken)
  have d3: "internalRequest c w = (Inl (ApiErrors (e # es)), w2)"
    if "responseErrors (body r) = Inr errors" "noEarlierRetry c r errors w2"
      "\<not> usedToken tokenParams \<or> hasErrorCode ''badtoken'' errors = Inr False"
      "errors = JArr (e # es)" "e \<noteq> JNull" for e es
    using iv [of "Throw (ApiErrors (e # es))" w2] d2 [OF that(1,2,3)] that(4)
      classify_errors [OF that(5), of c es "body r" w2]
    by simp
  have d4: "internalRequest c w = (Inr b', w2)"
    if "responseErrors (body r) = Inr errors" "noEarlierRetry c r errors w2"
      "\<not> usedToken tokenParams \<or> hasErrorCode ''badtoken'' errors = Inr False"
      "errors = JArr []" "responseWarnings (body r) = Inr ([], b')" for b'
    using iv [of "Return b'" w2] d2 [OF that(1,2,3)] that(4)
      classify_success [OF that(5), of c w2]
    by simp
  from a b c d1 d2 d3 d4 show ?thesis by blast
qed

text \<open>
  C3, amended. For every dispatched request whose response has status 200 and for which
  none of the earlier steps (header, \<open>maxlag\<close>, \<open>readonly\<close>) retries: if a token
  was resolved for the call and the errors include \<open>badtoken\<close>, the whole token cache
  is cleared, and the request is retried without delay when the deadline has not passed;
  when it has passed, the response is classified with the cache still cleared. If no
  token was used, the cache is left alone and the response is classified.
\<close>

theorem badtoken_clears_cache:
  assumes "resolveToken c w = (Inr tokenParams, w1)"
    and "dispatch (ir_method c) (sentParams c tokenParams) (ir_userAgent c) w1 = (Inr r, w2)"
    and "status r = 200"
    and "responseErrors (body r) = Inr errors"
    and "noEarlierRetry c r errors w2"
  shows
   "(usedToken tokenParams \<and> hasErrorCode ''badtoken'' errors = Inr True \<longrightarrow>
       (now w2 \<le> ir_retryUntil c \<longrightarrow>
          evaluate c (usedToken tokenParams) r w2 = (Retry 0, w2\<lparr> tokens := Map.empty \<rparr>)
          \<and> internalRequest c w = internalRequest c (sleep 0 (w2\<lparr> tokens := Map.empty \<rparr>)))
       \<and> (\<not> now w2 \<le> ir_retryUntil c \<longrightarrow>
          evaluate c (usedToken tokenParams) r w2
            = classify c errors (body r) (w2\<lparr> tokens := Map.empty \<rparr>)
          \<and> tokens (snd (internalRequest c w)) = Map.empty))
    \<and> (\<not> usedToken tokenParams \<longrightarrow>
          evaluate c (usedToken tokenParams) r w2 = classify c errors (body r) w2
          \<and> tokens (snd (internalRequest c w)) = tokens w2)"
proof -
  note ft = evaluate_fallthrough [OF assms(3,4,5), of "usedToken tokenParams"]
  have a: "evaluate c (usedToken tokenParams) r w2 = (Retry 0, w2\<lparr> tokens := Map.empty \<rparr>)
          \<and> internalRequest c w = internalRequest c (sleep 0 (w2\<lparr> tokens := Map.empty \<rparr>))"
    if "usedToken tokenParams" "hasErrorCode ''badtoken'' errors = Inr True"
      "now w2 \<le> ir_retryUntil c"
  proof -
    from ft that(1) badtokenStep_retry [OF that(2,3)]
    have ev: "evaluate c (usedToken tokenParams) r w2 = (Retry 0, w2\<lparr> tokens := Map.empty \<rparr>)"
      by simp
    from internalRequest_verdict [OF assms(1,2) ev] ev show ?thesis by simp
  qed
  have b: "evaluate c (usedToken tokenParams) r w2
            = classify c errors (body r) (w2\<lparr> tokens := Map.empty \<rparr>)
          \<and> tokens (snd (internalRequest c w)) = Map.empty"
    if "usedToken tokenParams" "hasErrorCode ''badtoken'' errors = Inr True"
      "\<not> now w2 \<le> ir_retryUntil c"
  proof -
    from ft that(1) badtokenStep_late [OF that(2,3)]
    have ev: "evaluate c (usedToken tokenParams) r w2
            = classify c errors (body r) (w2\<lparr> tokens := Map.empty \<rparr>)"
      by simp
    from internalRequest_classified(2) [OF assms(1,2) ev] ev show ?thesis by simp
  qed
  have c: "evaluate c (usedToken tokenParams) r w2 = classify c errors (body r) w2
          \<and> tokens (snd (internalRequest c w)) = tokens w2"
    if "\<not> usedToken tokenParams"
  proof -
    from ft that have ev: "evaluate c (usedToken tokenParams) r w2 = classify c errors (body r) w2"
      by (simp add: badtokenStep_no_token)
    from internalRequest_classified(2) [OF assms(1,2) ev] ev show ?thesis by simp
  qed
  from a b c show ?thesis by blast
qed

lemma pair_with_snd: "fst p = a \<Longrightarrow> p = (a, snd p)"
  by (cases p) simp

lemma resolveToken_exampleCall: "resolveToken exampleCall w = (Inr None, w)"
  by (simp add: resolveToken_def exampleCall_def)

lemma resolveToken_tokenCall:
  "tokens w ''csrf'' = Some t \<Longrightarrow>
   resolveToken tokenCall w = (Inr (Some [''token'' \<mapsto> WStr t]), w)"
  by (simp add: resolveToken_def tokenCall_def getToken.simps)

lemma dispatch_scripted:
  "m = ''GET'' \<or> m = ''POST'' \<Longrightarrow> script w = r # rs \<Longrightarrow>
   fst (dispatch m ps ua w) = Inr r
   \<and> now (snd (dispatch m ps ua w)) = now w + elapsed r
   \<and> tokens (snd (dispatch m ps ua w)) = tokens w
   \<and> timeouts (snd (dispatch m ps ua w)) = timeouts w
   \<and> script (snd (dispatch m ps ua w)) = rs"
  by (auto simp: dispatch_def internalGet_def internalPost_def transport_def split: prod.splits)

lemma parseInt_3: "parseInt ''3'' = Some 3"
  by (simp add: parseInt_def is_prefix_def is_space_def radix_digit_def hex_val_def radix_value_def)

lemma parseInt_100: "parseInt ''100'' = Some 100"
  by (simp add: parseInt_def is_prefix_def is_space_def radix_digit_def hex_val_def radix_value_def)

theorem retry_within_deadline_witness:
  "internalRequest exampleCall (newSession Map.empty no_options
       [reply 200 [(''retry-after'', ''3'')] (JObj []), reply 200 [] (JObj [])])
     = internalRequest exampleCall (sleep 3000 (snd (dispatch ''GET'' (sentParams exampleCall None)
         DEFAULT_USER_AGENT (newSession Map.empty no_options
       [reply 200 [(''retry-after'', ''3'')] (JObj []), reply 200 [] (JObj [])]))))
   \<and> internalRequest exampleCall (newSession Map.empty no_options
       [reply 200 [] (errorsBody [''maxlag'']), reply 200 [] (JObj [])])
     = internalRequest exampleCall (sleep 5000 (snd (dispatch ''GET'' (sentParams exampleCall None)
         DEFAULT_USER_AGENT (newSession Map.empty no_options
       [reply 200 [] (errorsBody [''maxlag'']), reply 200 [] (JObj [])]))))
   \<and> internalRequest exampleCall (newSession Map.empty no_options
       [reply 200 [] (errorsBody [''readonly'']), reply 200 [] (JObj [])])
     = internalRequest exampleCall (sleep 30000 (snd (dispatch ''GET'' (sentParams exampleCall None)
         DEFAULT_USER_AGENT (newSession Map.empty no_options
       [reply 200 [] (errorsBody [''readonly'']), reply 200 [] (JObj [])]))))
   \<and> internalRequest exampleCall (newSession Map.empty no_options
       [reply 200 [(''retry-after'', ''100'')] (errorsBody [''maxlag'']), reply 200 [] (JObj [])])
     = (Inl (ApiErrors [JObj [(''code'', JStr ''maxlag'')]]),
        snd (dispatch ''GET'' (sentParams exampleCall None)
         DEFAULT_USER_AGENT (newSession Map.empty no_options
       [reply 200 [(''retry-after'', ''100'')] (errorsBody [''maxlag'']), reply 200 [] (JObj [])])))"
proof -
  let ?d = "\<lambda>w. dispatch ''GET'' (sentParams exampleCall None) DEFAULT_USER_AGENT w"
  have m: "ir_method exampleCall = ''GET''" "ir_userAgent exampleCall = DEFAULT_USER_AGENT"
    "ir_retryUntil exampleCall = 65000" "ir_retryAfterMaxlagSeconds exampleCall = 5"
    "ir_retryAfterReadonlySeconds exampleCall = 30"
    by (simp_all add: exampleCall_def)
  have d: "dispatch (ir_method exampleCall) (sentParams exampleCall None) (ir_userAgent exampleCall)
             (newSession Map.empty no_options [r, r'])
           = (Inr r, snd (?d (newSession Map.empty no_options [r, r'])))" for r r'
    unfolding m by (rule pair_with_snd) (simp add: dispatch_scripted newSession_def)
  have n: "now (snd (?d (newSession Map.empty no_options [reply st hs b, r']))) = 100" for st hs b r'
    by (simp add: dispatch_scripted newSession_def reply_def)
  have e: "responseErrors (body (reply st hs (errorsBody cs)))
            = Inr (JArr (map (\<lambda>c. JObj [(''code'', JStr c)]) cs))" for st hs cs
    by (simp add: reply_def errorsBody_def responseErrors_def)
  let ?w1 = "newSession Map.empty no_options
       [reply 200 [(''retry-after'', ''3'')] (JObj []), reply 200 [] (JObj [])]"
  have 1: "internalRequest exampleCall ?w1 = internalRequest exampleCall (sleep 3000 (snd (?d ?w1)))"
    using retry_within_deadline [OF resolveToken_exampleCall d, where v = "''3''" and s = 3]
    by (simp add: reply_def parseInt_3 m n [unfolded reply_def])
  let ?w2 = "newSession Map.empty no_options
       [reply 200 [] (errorsBody [''maxlag'']), reply 200 [] (JObj [])]"
  have 2: "internalRequest exampleCall ?w2 = internalRequest exampleCall (sleep 5000 (snd (?d ?w2)))"
    using retry_within_deadline [OF resolveToken_exampleCall d,
        where errors = "JArr [JObj [(''code'', JStr ''maxlag'')]]"]
        e [of 200 "[]" "[''maxlag'']"] n [of 200 "[]"]
    by (simp add: m hasErrorCode_def) (simp add: reply_def)
  let ?w3 = "newSession Map.empty no_options
       [reply 200 [] (errorsBody [''readonly'']), reply 200 [] (JObj [])]"
  have 3: "internalRequest exampleCall ?w3 = internalRequest exampleCall (sleep 30000 (snd (?d ?w3)))"
    using retry_within_deadline [OF resolveToken_exampleCall d,
        where errors = "JArr [JObj [(''code'', JStr ''readonly'')]]" and maxlag = False]
        e [of 200 "[]" "[''readonly'']"] n [of 200 "[]"]
    by (simp add: m hasErrorCode_def) (simp add: reply_def)
  let ?w4 = "newSession Map.empty no_options
       [reply 200 [(''retry-after'', ''100'')] (errorsBody [''maxlag'']), reply 200 [] (JObj [])]"
  have ne: "noEarlierRetry exampleCall (reply 200 [(''retry-after'', ''100'')] (errorsBody [''maxlag'']))
       (JArr [JObj [(''code'', JStr ''maxlag'')]]) (snd (?d ?w4))"
    using n [of 200 "[(''retry-after'', ''100'')]" "errorsBody [''maxlag'']"]
    by (simp add: noEarlierRetry_def reply_def parseInt_100 retryIfBefore_def m)
  have 4: "internalRequest exampleCall ?w4
        = (Inl (ApiErrors [JObj [(''code'', JStr ''maxlag'')]]), snd (?d ?w4))"
    using retry_within_deadline [OF resolveToken_exampleCall d,
        where errors = "JArr [JObj [(''code'', JStr ''maxlag'')]]"] e [of 200 _ "[''maxlag'']"] ne
    by (simp add: usedToken_def) (simp add: reply_def)
  from 1 2 3 4 show ?thesis by simp
qed


theorem badtoken_clears_cache_witness:
  "internalRequest tokenCall ((newSession Map.empty no_options
       [reply 200 [] (errorsBody [''badtoken'']), reply 200 [] (JObj [])])
       \<lparr> tokens := [''csrf'' \<mapsto> ''stale''] \<rparr>)
     = internalRequest tokenCall (sleep 0 ((snd (dispatch ''POST''
         (sentParams tokenCall (Some [''token'' \<mapsto> WStr ''stale''])) DEFAULT_USER_AGENT
         ((newSession Map.empty no_options
            [reply 200 [] (errorsBody [''badtoken'']), reply 200 [] (JObj [])])
          \<lparr> tokens := [''csrf'' \<mapsto> ''stale''] \<rparr>)))
        \<lparr> tokens := Map.empty \<rparr>))
   \<and> tokens (snd (internalRequest (tokenCall\<lparr> ir_retryUntil := 50 \<rparr>)
        ((newSession Map.empty no_options
            [reply 200 [] (errorsBody [''badtoken'']), reply 200 [] (JObj [])])
          \<lparr> tokens := [''csrf'' \<mapsto> ''stale''] \<rparr>))) = Map.empty
   \<and> tokens (snd (internalRequest exampleCall
        ((newSession Map.empty no_options
            [reply 200 [] (errorsBody [''badtoken'']), reply 200 [] (JObj [])])
          \<lparr> tokens := [''csrf'' \<mapsto> ''stale''] \<rparr>))) = [''csrf'' \<mapsto> ''stale'']"
proof -
  let ?w = "(newSession Map.empty no_options
            [reply 200 [] (errorsBody [''badtoken'']), reply 200 [] (JObj [])])
          \<lparr> tokens := [''csrf'' \<mapsto> ''stale''] \<rparr>"
  let ?r = "reply 200 [] (errorsBody [''badtoken''])"
  let ?errors = "JArr [JObj [(''code'', JStr ''badtoken'')]]"
  let ?tp = "Some [''token'' \<mapsto> WStr ''stale'']"
  have sw: "script ?w = [?r, reply 200 [] (JObj [])]" "now ?w = 0"
    "tokens ?w = [''csrf'' \<mapsto> ''stale'']"
    by (simp_all add: newSession_def)
  have e: "responseErrors (body ?r) = Inr ?errors"
    by (simp add: reply_def errorsBody_def responseErrors_def)
  have st: "status ?r = 200" "elapsed ?r = 100" "map_of (headers ?r) ''retry-after'' = None"
    by (simp_all add: reply_def)
  have h: "hasErrorCode ''badtoken'' ?errors = Inr True"
    "hasErrorCode ''maxlag'' ?errors = Inr False" "hasErrorCode ''readonly'' ?errors = Inr False"
    by (simp_all add: hasErrorCode_def)
  have ne: "noEarlierRetry c ?r ?errors w'" for c w'
    by (simp add: noEarlierRetry_def st h)
  \<comment> \<open>a token was used, the deadline has not passed\<close>
  let ?d = "dispatch ''POST'' (sentParams tokenCall ?tp) DEFAULT_USER_AGENT ?w"
  have t1: "resolveToken tokenCall ?w = (Inr ?tp, ?w)"
    by (rule resolveToken_tokenCall) (simp add: sw)
  have d1: "dispatch (ir_method tokenCall) (sentParams tokenCall ?tp) (ir_userAgent tokenCall) ?w
            = (Inr ?r, snd ?d)"
    using dispatch_scripted [of "''POST''" ?w, OF _ sw(1)]
    by (simp add: tokenCall_def pair_with_snd)
  have n1: "now (snd ?d) = 100" "tokens (snd ?d) = [''csrf'' \<mapsto> ''stale'']"
    using dispatch_scripted [of "''POST''" ?w, OF _ sw(1)] by (simp_all add: sw st)
  have 1: "internalRequest tokenCall ?w
           = internalRequest tokenCall (sleep 0 ((snd ?d)\<lparr> tokens := Map.empty \<rparr>))"
    using badtoken_clears_cache [OF t1 d1 st(1) e ne] h(1) n1(1)
    by (simp add: usedToken_def tokenCall_def)
  \<comment> \<open>a token was used, the deadline has passed\<close>
  let ?c2 = "tokenCall\<lparr> ir_retryUntil := 50 \<rparr>"
  let ?d2 = "dispatch ''POST'' (sentParams ?c2 ?tp) DEFAULT_USER_AGENT ?w"
  have t2: "resolveToken ?c2 ?w = (Inr ?tp, ?w)"
    by (simp add: resolveToken_def tokenCall_def getToken.simps sw)
  have d2: "dispatch (ir_method ?c2) (sentParams ?c2 ?tp) (ir_userAgent ?c2) ?w
            = (Inr ?r, snd ?d2)"
    using dispatch_scripted [of "''POST''" ?w, OF _ sw(1)]
    by (simp add: tokenCall_def pair_with_snd)
  have n2: "now (snd ?d2) = 100"
    using dispatch_scripted [of "''POST''" ?w, OF _ sw(1)] by (simp add: sw st)
  have 2: "tokens (snd (internalRequest ?c2 ?w)) = Map.empty"
    using badtoken_clears_cache [OF t2 d2 st(1) e ne] h(1) n2
    by (simp add: usedToken_def tokenCall_def)
  \<comment> \<open>no token was used\<close>
  let ?d3 = "dispatch ''GET'' (sentParams exampleCall None) DEFAULT_USER_AGENT ?w"
  have d3: "dispatch (ir_method exampleCall) (sentParams exampleCall None) (ir_userAgent exampleCall) ?w
            = (Inr ?r, snd ?d3)"
    using dispatch_scripted [of "''GET''" ?w, OF _ sw(1)]
    by (simp add: exampleCall_def pair_with_snd)
  have n3: "tokens (snd ?d3) = [''csrf'' \<mapsto> ''stale'']"
    using dispatch_scripted [of "''GET''" ?w, OF _ sw(1)] by (simp add: sw)
  have 3: "tokens (snd (internalRequest exampleCall ?w)) = [''csrf'' \<mapsto> ''stale'']"
    using badtoken_clears_cache [OF resolveToken_exampleCall d3 st(1) e ne] n3
    by (simp add: usedToken_def)
  from 1 2 3 show ?thesis by blast
qed

section \<open>Properties of the token cache\<close>

lemma tokens_advise [simp]: "tokens (advise h e w) = tokens w"
  by (simp add: advise_def)

lemma tokens_sleep [simp]: "tokens (sleep millis w) = tokens w"
  by (simp add: sleep_def)

lemma tokens_prepare [simp]: "tokens (snd (prepare ps opts w)) = tokens w"
  by (simp add: prepare_def Let_def)

lemma tokens_dispatch: "dispatch m ps ua w = (res, w') \<Longrightarrow> tokens w' = tokens w"
  by (auto simp: dispatch_def internalGet_def internalPost_def transport_def
      split: prod.splits list.splits if_splits)

lemma tokens_evaluate_no_token: "evaluate c False r w = (v, w') \<Longrightarrow> tokens w' = tokens w"
proof -
  have "tokens (snd (evaluate c False r w)) = tokens w"
    by (simp add: evaluate_def maxlagStep_def readonlyStep_def badtokenStep_def
        split: option.splits sum.splits)
  then show "evaluate c False r w = (v, w') \<Longrightarrow> tokens w' = tokens w" by simp
qed

lemma no_token_keeps_cache_aux:
  "ir_tokenType c = None \<longrightarrow> tokens (snd (internalRequest c w)) = tokens w"
proof (rule engine_induct(1)
    [where Q = "\<lambda>type opts w. True" and R = "\<lambda>type opts cp w. True"
       and S = "\<lambda>ps opts w. True"
       and P = "\<lambda>c w. ir_tokenType c = None \<longrightarrow> tokens (snd (internalRequest c w)) = tokens w"],
    goal_cases)
  case (1 c w)
  show ?case
  proof
    assume nt: "ir_tokenType c = None"
    have tok: "tp = None \<and> w1 = w" if "resolveToken c w = (Inr tp, w1)" for tp w1
      using that nt by (cases c w rule: resolveToken_cases) simp_all
    show "tokens (snd (internalRequest c w)) = tokens w"
    proof (cases c w rule: internalRequest_cases)
      case (token_error e w1)
      with nt show ?thesis
        by (cases c w rule: resolveToken_cases) simp_all
    next
      case (dispatch_error tokenParams w1 e w2)
      with tok [OF dispatch_error(1)] tokens_dispatch [OF dispatch_error(2)] show ?thesis by simp
    next
      case (retry tokenParams w1 r w2 millis w3)
      from tok [OF retry(1)] retry(3) have "tokens w3 = tokens w2"
        by (simp add: usedToken_def tokens_evaluate_no_token)
      moreover from 1(2) [OF retry(1,2,3)] nt
      have "tokens (snd (internalRequest c (sleep millis w3))) = tokens (sleep millis w3)" by simp
      ultimately show ?thesis
        using retry(4) tok [OF retry(1)] tokens_dispatch [OF retry(2)] by simp
    next
      case (throw tokenParams w1 r w2 e w3)
      from tok [OF throw(1)] throw(3) have "tokens w3 = tokens w2"
        by (simp add: usedToken_def tokens_evaluate_no_token)
      with throw(4) tok [OF throw(1)] tokens_dispatch [OF throw(2)] show ?thesis by simp
    next
      case (return tokenParams w1 r w2 b w3)
      from tok [OF return(1)] return(3) have "tokens w3 = tokens w2"
        by (simp add: usedToken_def tokens_evaluate_no_token)
      with return(4) tok [OF return(1)] tokens_dispatch [OF return(2)] show ?thesis by simp
    qed
  qed
qed simp_all

lemma no_token_keeps_cache:
  "ir_tokenType c = None \<Longrightarrow> tokens (snd (internalRequest c w)) = tokens w"
  by (rule no_token_keeps_cache_aux [rule_format])

lemma spread_tokenType_null:
  "tokenType opts = Some None \<Longrightarrow>
   option_value (tokenType (spread (spread DEFAULT_OPTIONS (defaultOptions w)) opts)) None = None"
  by (simp add: spread_def later_def option_value_def)

lemma request_keeps_cache:
  "tokenType opts = Some None \<Longrightarrow> tokens (snd (request ps opts w)) = tokens w"
proof -
  assume a: "tokenType opts = Some None"
  have "ir_tokenType (fst (prepare ps opts w)) = None"
    using prepare_tokenType [of ps opts w "fst (prepare ps opts w)" "snd (prepare ps opts w)"]
      spread_tokenType_null [OF a] by simp
  from no_token_keeps_cache [OF this] show ?thesis
    by (simp add: request_unfold)
qed

lemma tokenPages_unfold:
  "tokenPages type opts continueParams w =
     (case request (tokenQuery type ++ continueParams) opts w of
        (Inl e, w1) \<Rightarrow> (Inl e, w1)
      | (Inr response, w1) \<Rightarrow>
          (case tokenOf type response of
             Some token \<Rightarrow> (Inr (), w1\<lparr> tokens := (tokens w1)(type \<mapsto> token) \<rparr>)
           | None \<Rightarrow>
               (case continueParamsOf response of
                  Some continueParams' \<Rightarrow> tokenPages type opts continueParams' w1
                | None \<Rightarrow> (Inr (), w1))))"
  by (subst tokenPages.simps) simp

lemma tokenPages_cache_aux:
  "tokenType opts = Some None \<longrightarrow>
   (case tokenPages type opts continueParams w of
      (Inl e, w') \<Rightarrow> tokens w' = tokens w
    | (Inr u, w') \<Rightarrow> tokens w' = tokens w \<or> (\<exists>token. tokens w' = (tokens w)(type \<mapsto> token)))"
proof (rule engine_induct(3)
    [where Q = "\<lambda>type opts w. True" and P = "\<lambda>c w. True" and S = "\<lambda>ps opts w. True"
       and R = "\<lambda>type opts continueParams w. tokenType opts = Some None \<longrightarrow>
         (case tokenPages type opts continueParams w of
            (Inl e, w') \<Rightarrow> tokens w' = tokens w
          | (Inr u, w') \<Rightarrow> tokens w' = tokens w \<or> (\<exists>token. tokens w' = (tokens w)(type \<mapsto> token)))"],
    goal_cases)
  case (3 type opts continueParams w)
  show ?case
  proof
    assume tt: "tokenType opts = Some None"
    obtain x w1 where rq: "request (tokenQuery type ++ continueParams) opts w = (x, w1)" by fastforce
    from request_keeps_cache [OF tt, of "tokenQuery type ++ continueParams" w] rq
    have k: "tokens w1 = tokens w" by simp
    show "case tokenPages type opts continueParams w of
            (Inl e, w') \<Rightarrow> tokens w' = tokens w
          | (Inr u, w') \<Rightarrow> tokens w' = tokens w \<or> (\<exists>token. tokens w' = (tokens w)(type \<mapsto> token))"
    proof (cases x)
      case (Inl e)
      with rq k show ?thesis by (simp add: tokenPages_unfold [of type opts continueParams w])
    next
      case (Inr response)
      show ?thesis
      proof (cases "tokenOf type response")
        case (Some token)
        with rq Inr k show ?thesis
          by (auto simp: tokenPages_unfold [of type opts continueParams w])
      next
        case None
        show ?thesis
        proof (cases "continueParamsOf response")
          case n: None
          with rq Inr None k show ?thesis
            by (simp add: tokenPages_unfold [of type opts continueParams w])
        next
          case (Some cp')
          from 3(2) [OF rq [unfolded Inr] None Some] tt rq Inr None Some k
          show ?thesis
            by (simp add: tokenPages_unfold [of type opts continueParams w]
                split: prod.splits sum.splits)
        qed
      qed
    qed
  qed
qed simp_all

lemma tokenPages_cache:
  "tokenType opts = Some None \<Longrightarrow>
   (case tokenPages type opts continueParams w of
      (Inl e, w') \<Rightarrow> tokens w' = tokens w
    | (Inr u, w') \<Rightarrow> tokens w' = tokens w \<or> (\<exists>token. tokens w' = (tokens w)(type \<mapsto> token)))"
  by (rule tokenPages_cache_aux [rule_format])

lemma getToken_cached: "tokens w type = Some t \<Longrightarrow> getToken type opts w = (Inr (Some t), w)"
  by (simp add: getToken_unfold)

lemma getToken_uncached:
  assumes "tokens w type = None"
  shows "tokens (snd (getToken type opts w)) = tokens w
         \<or> (\<exists>token. tokens (snd (getToken type opts w)) = (tokens w)(type \<mapsto> token))"
    and "fst (getToken type opts w) = Inr (Some token) \<Longrightarrow>
         tokens (snd (getToken type opts w)) = (tokens w)(type \<mapsto> token)"
    and "fst (getToken type opts w) = Inr None \<Longrightarrow> tokens (snd (getToken type opts w)) = tokens w"
    and "fst (getToken type opts w) = Inl e \<Longrightarrow> tokens (snd (getToken type opts w)) = tokens w"
proof -
  let ?p = "tokenPages type (tokenRequestOptions opts) [''continue'' \<mapsto> PUndefined] w"
  have tt: "tokenType (tokenRequestOptions opts) = Some None"
    by (simp add: tokenRequestOptions_def)
  obtain x w1 where p: "?p = (x, w1)" by fastforce
  note c = tokenPages_cache [OF tt, where type = type and w = w
      and continueParams = "[''continue'' \<mapsto> PUndefined]", unfolded p]
  note g = getToken_unfold [of type opts w, unfolded p]
  show "tokens (snd (getToken type opts w)) = tokens w
         \<or> (\<exists>token. tokens (snd (getToken type opts w)) = (tokens w)(type \<mapsto> token))"
    using assms c g by (cases x) auto
  show "tokens (snd (getToken type opts w)) = (tokens w)(type \<mapsto> token)"
    if "fst (getToken type opts w) = Inr (Some token)"
    using assms c g that by (cases x) (auto split: if_splits)
  show "tokens (snd (getToken type opts w)) = tokens w"
    if "fst (getToken type opts w) = Inr None"
    using assms c g that by (cases x) (auto split: if_splits)
  show "tokens (snd (getToken type opts w)) = tokens w"
    if "fst (getToken type opts w) = Inl e"
    using assms c g that by (cases x) (auto split: if_splits)
qed

lemma tokenPages_found:
  "request (tokenQuery type ++ continueParams) opts w = (Inr response, w1) \<Longrightarrow>
   tokenOf type response = Some token \<Longrightarrow>
   tokenPages type opts continueParams w = (Inr (), w1\<lparr> tokens := (tokens w1)(type \<mapsto> token) \<rparr>)"
  by (simp add: tokenPages_unfold [of type opts continueParams w])

lemma tokenPages_next:
  "request (tokenQuery type ++ continueParams) opts w = (Inr response, w1) \<Longrightarrow>
   tokenOf type response = None \<Longrightarrow> continueParamsOf response = Some continueParams' \<Longrightarrow>
   tokenPages type opts continueParams w = tokenPages type opts continueParams' w1"
  by (simp add: tokenPages_unfold [of type opts continueParams w])

lemma tokenPages_exhausted:
  "request (tokenQuery type ++ continueParams) opts w = (Inr response, w1) \<Longrightarrow>
   tokenOf type response = None \<Longrightarrow> continueParamsOf response = None \<Longrightarrow>
   tokenPages type opts continueParams w = (Inr (), w1)"
  by (simp add: tokenPages_unfold [of type opts continueParams w])

text \<open>
  C4, as stated, fails in its last part: a call to \<open>getToken\<close> does not always write
  a cache entry. With the token cached, the session is left exactly as it was; with the
  continuation exhausted and no token found, the call returns \<open>undefined\<close> and the
  cache is still empty.
\<close>

theorem getToken_cache_counterexample:
  "getToken ''csrf'' no_options
     ((newSession Map.empty no_options [reply 200 [] (tokenBody ''fresh'')])
        \<lparr> tokens := [''csrf'' \<mapsto> ''cached''] \<rparr>)
     = (Inr (Some ''cached''),
        (newSession Map.empty no_options [reply 200 [] (tokenBody ''fresh'')])
        \<lparr> tokens := [''csrf'' \<mapsto> ''cached''] \<rparr>)
   \<and> fst (getToken ''csrf'' no_options (newSession Map.empty no_options [reply 200 [] (JObj [])]))
       = Inr None
   \<and> tokens (snd (getToken ''csrf'' no_options
         (newSession Map.empty no_options [reply 200 [] (JObj [])]))) = Map.empty"
proof -
  have 1: "getToken ''csrf'' no_options
     ((newSession Map.empty no_options [reply 200 [] (tokenBody ''fresh'')])
        \<lparr> tokens := [''csrf'' \<mapsto> ''cached''] \<rparr>)
     = (Inr (Some ''cached''),
        (newSession Map.empty no_options [reply 200 [] (tokenBody ''fresh'')])
        \<lparr> tokens := [''csrf'' \<mapsto> ''cached''] \<rparr>)"
    by (rule getToken_cached) simp
  have 2: "fst (getToken ''csrf'' no_options (newSession Map.empty no_options [reply 200 [] (JObj [])]))
       = Inr None"
    by code_simp
  have "tokens (newSession Map.empty no_options [reply 200 [] (JObj [])]) ''csrf'' = None"
    by (simp add: newSession_def)
  from getToken_uncached(3) [OF this 2]
  have 3: "tokens (snd (getToken ''csrf'' no_options
         (newSession Map.empty no_options [reply 200 [] (JObj [])]))) = Map.empty"
    by (simp add: newSession_def)
  from 1 2 3 show ?thesis by blast
qed

text \<open>
  C4, amended. For every token type: when a token is cached, \<open>getToken\<close> returns it
  and leaves the session as it is (no request). Otherwise it runs the token query through
  the continuation: a response that has the string \<open>query.tokens[type + 'token']\<close>
  ends the loop and is cached under the type; a response without it is followed by the
  request with its continuation parameters when it has some, and ends the loop when it
  has none. The call returns what the cache holds for the type afterwards:
  the fetched token, or \<open>undefined\<close> without an error when no response had one. A
  call writes at most one cache entry: the entry of the type when a token was fetched,
  none otherwise. The requests of the token query leave the cache alone, so that a
  first response without the token and without continuation makes the call return
  \<open>undefined\<close>.
\<close>

theorem getToken_cache:
  "(tokens w type = Some t \<longrightarrow> getToken type opts w = (Inr (Some t), w))
   \<and> (tokens w type = None \<longrightarrow>
        getToken type opts w =
          (case tokenPages type (tokenRequestOptions opts) [''continue'' \<mapsto> PUndefined] w of
             (Inl e, w1) \<Rightarrow> (Inl e, w1)
           | (Inr u, w1) \<Rightarrow> (Inr (tokens w1 type), w1))
        \<and> (tokens (snd (getToken type opts w)) = tokens w
            \<or> (\<exists>token. tokens (snd (getToken type opts w)) = (tokens w)(type \<mapsto> token)))
        \<and> (fst (getToken type opts w) = Inr (Some token)
            \<longrightarrow> tokens (snd (getToken type opts w)) = (tokens w)(type \<mapsto> token))
        \<and> (fst (getToken type opts w) = Inr None
            \<longrightarrow> tokens (snd (getToken type opts w)) = tokens w))
   \<and> (request (tokenQuery type ++ continueParams) opts' w = (Inr response, w1) \<longrightarrow>
        (tokenOf type response = Some token' \<longrightarrow>
           tokenPages type opts' continueParams w
             = (Inr (), w1\<lparr> tokens := (tokens w1)(type \<mapsto> token') \<rparr>))
        \<and> (tokenOf type response = None \<and> continueParamsOf response = Some continueParams' \<longrightarrow>
           tokenPages type opts' continueParams w = tokenPages type opts' continueParams' w1)
        \<and> (tokenOf type response = None \<and> continueParamsOf response = None \<longrightarrow>
           tokenPages type opts' continueParams w = (Inr (), w1)))
   \<and> (tokenType opts' = Some None \<longrightarrow> tokens (snd (request ps' opts' w)) = tokens w)
   \<and> (tokens w type = None
        \<and> request (tokenQuery type ++ [''continue'' \<mapsto> PUndefined]) (tokenRequestOptions opts) w
            = (Inr response', w1')
        \<and> tokenOf type response' = None \<and> continueParamsOf response' = None \<longrightarrow>
        getToken type opts w = (Inr None, w1'))"
proof -
  have a: "getToken type opts w = (Inr (Some t), w)" if "tokens w type = Some t"
    using that by (rule getToken_cached)
  have b: "getToken type opts w =
          (case tokenPages type (tokenRequestOptions opts) [''continue'' \<mapsto> PUndefined] w of
             (Inl e, w1) \<Rightarrow> (Inl e, w1)
           | (Inr u, w1) \<Rightarrow> (Inr (tokens w1 type), w1))" if "tokens w type = None"
    using that by (subst getToken_unfold) simp
  note c = getToken_uncached(1) [of w type opts]
  note d = getToken_uncached(2) [of w type opts token]
  note e = getToken_uncached(3) [of w type opts]
  note f = tokenPages_found [of type continueParams opts' w response w1 token']
  note g = tokenPages_next [of type continueParams opts' w response w1 continueParams']
  note h = tokenPages_exhausted [of type continueParams opts' w response w1]
  have i: "tokens (snd (request ps' opts' w)) = tokens w" if "tokenType opts' = Some None"
    using that by (rule request_keeps_cache)
  have j: "getToken type opts w = (Inr None, w1')"
    if "tokens w type = None"
      and "request (tokenQuery type ++ [''continue'' \<mapsto> PUndefined]) (tokenRequestOptions opts) w
            = (Inr response', w1')"
      and "tokenOf type response' = None" and "continueParamsOf response' = None"
  proof -
    have "tokenType (tokenRequestOptions opts) = Some None"
      by (simp add: tokenRequestOptions_def)
    from request_keeps_cache [OF this,
        of "tokenQuery type ++ [''continue'' \<mapsto> PUndefined]" w] that(1,2)
    have "tokens w1' type = None" by simp
    with tokenPages_exhausted [OF that(2,3,4)] that(1) show ?thesis
      by (simp add: getToken_unfold [of type opts w])
  qed
  show ?thesis
    by (intro conjI impI a b c d e f g h i j) (erule conjE | assumption)+
qed


theorem getToken_cache_witness:
  "getToken ''csrf'' no_options
     ((newSession Map.empty no_options [])\<lparr> tokens := [''csrf'' \<mapsto> ''cached''] \<rparr>)
     = (Inr (Some ''cached''),
        (newSession Map.empty no_options [])\<lparr> tokens := [''csrf'' \<mapsto> ''cached''] \<rparr>)
   \<and> fst (getToken ''csrf'' no_options (newSession Map.empty no_options
        [reply 200 [] (JObj [(''continue'', JObj [(''c'', JStr ''x'')])]),
         reply 200 [] (tokenBody ''fresh'')])) = Inr (Some ''fresh'')
   \<and> tokens (snd (getToken ''csrf'' no_options (newSession Map.empty no_options
        [reply 200 [] (JObj [(''continue'', JObj [(''c'', JStr ''x'')])]),
         reply 200 [] (tokenBody ''fresh'')]))) = [''csrf'' \<mapsto> ''fresh'']
   \<and> length (calls (snd (getToken ''csrf'' no_options (newSession Map.empty no_options
        [reply 200 [] (JObj [(''continue'', JObj [(''c'', JStr ''x'')])]),
         reply 200 [] (tokenBody ''fresh'')])))) = 2
   \<and> fst (getToken ''csrf'' no_options (newSession Map.empty no_options
        [reply 200 [] (JObj [(''continue'', JObj [(''c'', JStr ''x'')])]),
         reply 200 [] (JObj [])])) = Inr None
   \<and> tokens (snd (getToken ''csrf'' no_options (newSession Map.empty no_options
        [reply 200 [] (JObj [(''continue'', JObj [(''c'', JStr ''x'')])]),
         reply 200 [] (JObj [])]))) = Map.empty"
proof -
  let ?wc = "(newSession Map.empty no_options [])\<lparr> tokens := [''csrf'' \<mapsto> ''cached''] \<rparr>"
  let ?w2 = "newSession Map.empty no_options
        [reply 200 [] (JObj [(''continue'', JObj [(''c'', JStr ''x'')])]),
         reply 200 [] (tokenBody ''fresh'')]"
  let ?w0 = "newSession Map.empty no_options
        [reply 200 [] (JObj [(''continue'', JObj [(''c'', JStr ''x'')])]),
         reply 200 [] (JObj [])]"
  have 1: "getToken ''csrf'' no_options ?wc = (Inr (Some ''cached''), ?wc)"
    by (rule getToken_cache [where w = ?wc and type = "''csrf''" and t = "''cached''"
        and opts = no_options, THEN conjunct1, THEN mp]) simp
  have f2: "fst (getToken ''csrf'' no_options ?w2) = Inr (Some ''fresh'')"
    by code_simp
  have c2: "length (calls (snd (getToken ''csrf'' no_options ?w2))) = 2"
    by code_simp
  have e2: "tokens ?w2 = Map.empty" and e0: "tokens ?w0 = Map.empty"
    by (simp_all add: newSession_def)
  have k2: "tokens ?w2 ''csrf'' = None" and k0: "tokens ?w0 ''csrf'' = None"
    by (simp_all add: e2 e0)
  note g2 = getToken_cache [where w = ?w2 and type = "''csrf''" and token = "''fresh''"
        and opts = no_options, THEN conjunct2, THEN conjunct1, THEN mp, OF k2]
  from g2 [THEN conjunct2, THEN conjunct2, THEN conjunct1, THEN mp, OF f2] e2
  have 2: "tokens (snd (getToken ''csrf'' no_options ?w2)) = [''csrf'' \<mapsto> ''fresh'']"
    by simp
  have f3: "fst (getToken ''csrf'' no_options ?w0) = Inr None"
    by code_simp
  note g0 = getToken_cache [where w = ?w0 and type = "''csrf''"
        and opts = no_options, THEN conjunct2, THEN conjunct1, THEN mp, OF k0]
  from g0 [THEN conjunct2, THEN conjunct2, THEN conjunct2, THEN mp, OF f3] e0
  have 3: "tokens (snd (getToken ''csrf'' no_options ?w0)) = Map.empty"
    by simp
  from 1 f2 2 c2 f3 3 show ?thesis by blast
qed

section \<open>Requests without a token\<close>

lemma plain_evaluate: "plain r \<Longrightarrow> evaluate c u r w = (Return (body r), w)"
  by (auto simp: plain_def evaluate_def responseErrors_def maxlagStep_def readonlyStep_def
      badtokenStep_def hasErrorCode_def classify_def throwIfErrors_def responseWarnings_def
      split: json.splits)

lemma dispatch_wireCall:
  "m = ''GET'' \<or> m = ''POST'' \<Longrightarrow> script w = r # rs \<Longrightarrow>
   dispatch m ps ua w
     = (Inr r, w\<lparr> script := rs, calls := calls w @ [wireCall m ps ua], now := now w + elapsed r \<rparr>)"
  by (auto simp: dispatch_def internalGet_def internalPost_def transport_def wireCall_def
      split: prod.splits)

lemma internalRequest_plain:
  assumes "ir_params c (ir_tokenName c) \<noteq> Some WToken"
    and "ir_method c = ''GET'' \<or> ir_method c = ''POST''"
    and "script w = r # rs" and "plain r"
  shows "internalRequest c w
     = (Inr (body r), w\<lparr> script := rs,
          calls := calls w @ [wireCall (ir_method c) (ir_params c) (ir_userAgent c)],
          now := now w + elapsed r \<rparr>)"
proof -
  from assms(1) have t: "resolveToken c w = (Inr None, w)"
    by (simp add: resolveToken_def)
  have s: "sentParams c None = ir_params c"
    by (simp add: sentParams_def)
  from internalRequest_verdict [OF t dispatch_wireCall [OF assms(2,3)] plain_evaluate [OF assms(4)]]
  show ?thesis by (simp add: s)
qed

lemma callWarn_keeps [simp]:
  "script (snd (callWarn h e w)) = script w" "calls (snd (callWarn h e w)) = calls w"
  "now (snd (callWarn h e w)) = now w" "defaultParams (snd (callWarn h e w)) = defaultParams w"
  "defaultOptions (snd (callWarn h e w)) = defaultOptions w"
  "timeouts (snd (callWarn h e w)) = timeouts w"
  by (induction h e w rule: callWarn.induct) (auto split: option.splits)

lemma prepare_world [simp]:
  "script (snd (prepare ps opts w)) = script w" "calls (snd (prepare ps opts w)) = calls w"
  "now (snd (prepare ps opts w)) = now w"
  "defaultParams (snd (prepare ps opts w)) = defaultParams w"
  "defaultOptions (snd (prepare ps opts w)) = defaultOptions w"
  "timeouts (snd (prepare ps opts w)) = timeouts w"
  by (simp_all add: prepare_def Let_def advise_def)

lemma prepare_call:
  "ir_method (fst (prepare ps opts w)) = option_value (method' (composed opts w)) ''undefined''"
  "ir_tokenName (fst (prepare ps opts w)) = option_value (tokenName (composed opts w)) ''token''"
  "ir_tokenType (fst (prepare ps opts w)) = option_value (tokenType (composed opts w)) None"
  "ir_userAgent (fst (prepare ps opts w)) = fullUserAgent (userAgent (composed opts w))"
  "ir_params (fst (prepare ps opts w)) =
     transformParams (defaultParams w
       ++ (if option_value (tokenType (composed opts w)) None \<noteq> None
           then [option_value (tokenName (composed opts w)) ''token'' \<mapsto> PToken] else Map.empty)
       ++ ps ++ [''format'' \<mapsto> PStr ''json''])"
  by (simp_all add: prepare_def Let_def composed_def fullUserAgent_def option_value_def
      split: option.splits)

lemma transformParamValue_token: "transformParamValue v = Some WToken \<longleftrightarrow> v = PToken"
proof (cases v)
  case (PBool b)
  then show ?thesis by (cases b) simp_all
qed simp_all

lemma transformParams_token: "transformParams ps key = Some WToken \<longleftrightarrow> ps key = Some PToken"
  by (simp add: transformParams_def transformParamValue_token split: option.splits)

lemma request_plain:
  assumes "plainRequest ps opts w" and "script w = r # rs" and "plain r"
  shows "request ps opts w
     = (Inr (body r), (snd (prepare ps opts w))\<lparr> script := rs,
          calls := calls w @ [wireCall (option_value (method' (composed opts w)) ''undefined'')
             (transformParams (defaultParams w ++ ps ++ [''format'' \<mapsto> PStr ''json'']))
             (fullUserAgent (userAgent (composed opts w)))],
          now := now w + elapsed r \<rparr>)"
proof -
  let ?c = "fst (prepare ps opts w)" and ?w = "snd (prepare ps opts w)"
  from assms(1) have nt: "option_value (tokenType (composed opts w)) None = None"
    and m: "option_value (method' (composed opts w)) ''undefined'' = ''GET''
            \<or> option_value (method' (composed opts w)) ''undefined'' = ''POST''"
    and p: "ps (option_value (tokenName (composed opts w)) ''token'') \<noteq> Some PToken"
      "defaultParams w (option_value (tokenName (composed opts w)) ''token'') \<noteq> Some PToken"
    by (simp_all add: plainRequest_def Let_def)
  have ps: "ir_params ?c = transformParams (defaultParams w ++ ps ++ [''format'' \<mapsto> PStr ''json''])"
    by (simp add: prepare_call nt)
  have 1: "ir_params ?c (ir_tokenName ?c) \<noteq> Some WToken"
    using p by (auto simp: ps prepare_call(2) transformParams_token map_add_def split: option.splits)
  have 2: "ir_method ?c = ''GET'' \<or> ir_method ?c = ''POST''"
    using m by (simp add: prepare_call)
  have 3: "script ?w = r # rs" using assms(2) by simp
  from internalRequest_plain [OF 1 2 3 assms(3)] show ?thesis
    by (simp add: request_unfold ps prepare_call(1,2,4))
qed

section \<open>The continuation driver\<close>

lemma continueParamsOf_absent:
  "getProp b ''continue'' = None \<Longrightarrow> continueParamsOf b = None"
  by (simp add: continueParamsOf_def)

lemma continueParamsOf_present:
  "getProp b ''continue'' \<noteq> None \<Longrightarrow> continueParamsOf b = Some (nextParams b)"
  by (auto simp: continueParamsOf_def nextParams_def)

lemma continueParamsOf_iff: "continueParamsOf b = None \<longleftrightarrow> getProp b ''continue'' = None"
  by (auto simp: continueParamsOf_def split: option.splits)

lemma loop_pagesFrom:
  "pagesFrom ps opts cp w bs l \<Longrightarrow>
   requestAndContinue_loop ps opts cp w = ((bs @ [l], None), pagesWorld ps opts cp w bs)"
proof (induction bs arbitrary: cp w)
  case Nil
  obtain x w1 where r: "request (ps ++ cp) opts w = (x, w1)" by fastforce
  with Nil show ?case
    by (subst requestAndContinue_loop.simps) (simp add: continueParamsOf_absent)
next
  case (Cons b bs)
  obtain x w1 where r: "request (ps ++ cp) opts w = (x, w1)" by fastforce
  with Cons.prems have x: "x = Inr b" and c: "getProp b ''continue'' \<noteq> None"
    and p: "pagesFrom ps opts (nextParams b) w1 bs l" by simp_all
  from Cons.IH [OF p] r x c show ?case
    by (subst requestAndContinue_loop.simps) (simp add: continueParamsOf_present)
qed

lemma pagesFrom_loop:
  "fst (requestAndContinue_loop ps opts cp w) = (items, None) \<Longrightarrow>
   items \<noteq> [] \<and> pagesFrom ps opts cp w (butlast items) (last items)"
proof (induction ps opts cp w arbitrary: items rule: requestAndContinue_loop.induct)
  case (1 ps opts cp w)
  obtain x w1 where r: "request (ps ++ cp) opts w = (x, w1)" by fastforce
  show ?case
  proof (cases x)
    case (Inl e)
    with r 1(2) show ?thesis
      by (simp add: requestAndContinue_loop.simps [of ps opts cp w])
  next
    case (Inr b)
    show ?thesis
    proof (cases "continueParamsOf b")
      case None
      with r Inr 1(2) show ?thesis
        by (auto simp: requestAndContinue_loop.simps [of ps opts cp w] continueParamsOf_iff)
    next
      case (Some cp')
      then have c: "getProp b ''continue'' \<noteq> None" and n: "nextParams b = cp'"
        by (auto simp: continueParamsOf_iff [symmetric] nextParams_def)
      obtain rest e w2 where l: "requestAndContinue_loop ps opts cp' w1 = ((rest, e), w2)"
        by (metis prod.collapse)
      with r Inr Some 1(2) have i: "items = b # rest" and e: "e = None"
        by (simp_all add: requestAndContinue_loop.simps [of ps opts cp w])
      from 1(1) [OF r [symmetric] Inr Some, of rest] l e
      have "rest \<noteq> [] \<and> pagesFrom ps opts cp' w1 (butlast rest) (last rest)" by simp
      with i r Inr c n show ?thesis by simp
    qed
  qed
qed

text \<open>
  C5, as stated, fails: the loop ends when \<open>response.continue && { ...response.continue }\<close>
  is \<open>undefined\<close>, which a \<open>continue\<close> member that is present but falsy does not
  give. The responses \<open>{continue: null}\<close>, \<open>{}\<close> yield two items from two calls,
  although the first response carries no \<open>continue\<close> object.
\<close>

theorem requestAndContinue_stop_counterexample:
  "fst (requestAndContinue [''action'' \<mapsto> PStr ''query''] no_options
          (newSession Map.empty no_options
             [reply 200 [] (JObj [(''continue'', JNull)]), reply 200 [] (JObj [])]))
     = ([JObj [(''continue'', JNull)], JObj []], None)
   \<and> length (calls (snd (requestAndContinue [''action'' \<mapsto> PStr ''query''] no_options
          (newSession Map.empty no_options
             [reply 200 [] (JObj [(''continue'', JNull)]), reply 200 [] (JObj [])])))) = 2
   \<and> getProp (JObj [(''continue'', JNull)]) ''continue'' = Some JNull"
  by code_simp

text \<open>
  C5, amended. For every query, \<open>requestAndContinue\<close> starts with the continuation
  parameters \<open>{ continue: undefined }\<close>, so that the first call carries no
  \<open>continue\<close> parameter whatever the parameters and default parameters are; after
  each response with a \<open>continue\<close> member it makes the next call with the
  parameters of the query merged with the continuation parameters of that response,
  which override them; and it stops after the first response without a \<open>continue\<close>
  member. It yields the bodies \<open>bs\<close> and then \<open>l\<close> and ends without an error exactly
  when these requests return them, and then it has made no other request. The
  continuation parameters of a response are the members of its \<open>continue\<close> object;
  a \<open>continue\<close> member that is present but falsy gives none and does not stop the
  loop. (The statement is for \<open>continue\<close> values whose members can be sent.)
\<close>

theorem requestAndContinue_pages:
  "(list_all sendablePage bs \<and> pagesFrom ps opts [''continue'' \<mapsto> PUndefined] w bs l \<longrightarrow>
      requestAndContinue ps opts w
        = ((bs @ [l], None), pagesWorld ps opts [''continue'' \<mapsto> PUndefined] w bs))
   \<and> (list_all sendablePage items \<and> fst (requestAndContinue ps opts w) = (items, None) \<longrightarrow>
        items \<noteq> []
        \<and> pagesFrom ps opts [''continue'' \<mapsto> PUndefined] w (butlast items) (last items))
   \<and> transformParams (dps ++ (ps ++ [''continue'' \<mapsto> PUndefined])
        ++ [''format'' \<mapsto> PStr ''json'']) ''continue'' = None
   \<and> (getProp b ''continue'' = Some (JObj kvs) \<longrightarrow>
        nextParams b = map_of (map (\<lambda>(k, v). (k, fromJson v)) kvs))
   \<and> (getProp b ''continue'' = Some c \<and> \<not> truthy c \<longrightarrow> nextParams b = Map.empty)
   \<and> (nextParams b key = Some v \<longrightarrow> (ps ++ nextParams b) key = Some v)"
proof -
  have 1: "pagesFrom ps opts [''continue'' \<mapsto> PUndefined] w bs l \<longrightarrow>
      requestAndContinue ps opts w
        = ((bs @ [l], None), pagesWorld ps opts [''continue'' \<mapsto> PUndefined] w bs)"
    unfolding requestAndContinue_def using loop_pagesFrom by blast
  have 2: "fst (requestAndContinue ps opts w) = (items, None) \<longrightarrow>
        items \<noteq> []
        \<and> pagesFrom ps opts [''continue'' \<mapsto> PUndefined] w (butlast items) (last items)"
    unfolding requestAndContinue_def using pagesFrom_loop by blast
  have 3: "transformParams (dps ++ (ps ++ [''continue'' \<mapsto> PUndefined])
        ++ [''format'' \<mapsto> PStr ''json'']) ''continue'' = None"
    by (simp add: transformParams_def map_add_def)
  have 4: "getProp b ''continue'' = Some (JObj kvs) \<longrightarrow>
        nextParams b = map_of (map (\<lambda>(k, v). (k, fromJson v)) kvs)"
    by (simp add: nextParams_def continueParamsOf_def)
  have 5: "getProp b ''continue'' = Some c \<and> \<not> truthy c \<longrightarrow> nextParams b = Map.empty"
    by (simp add: nextParams_def continueParamsOf_def)
  have 6: "nextParams b key = Some v \<longrightarrow> (ps ++ nextParams b) key = Some v"
    by (simp add: map_add_def)
  from 1 2 3 4 5 6 show ?thesis by blast
qed

lemma pages_example:
  "pagesFrom [''action'' \<mapsto> PStr ''query''] no_options [''continue'' \<mapsto> PUndefined]
     (newSession Map.empty no_options
        [continuePage ''x'', continuePage ''y'', reply 200 [] (JObj [])])
     [JObj [(''continue'', JObj [(''c'', JStr ''x'')])],
      JObj [(''continue'', JObj [(''c'', JStr ''y'')])]]
     (JObj [])"
  "list_all sendablePage [JObj [(''continue'', JObj [(''c'', JStr ''x'')])],
      JObj [(''continue'', JObj [(''c'', JStr ''y'')])]]"
  "map (\<lambda>s. (sentParameter ''c'' s, sentParameter ''continue'' s))
     (calls (pagesWorld [''action'' \<mapsto> PStr ''query''] no_options [''continue'' \<mapsto> PUndefined]
        (newSession Map.empty no_options
           [continuePage ''x'', continuePage ''y'', reply 200 [] (JObj [])])
        [JObj [(''continue'', JObj [(''c'', JStr ''x'')])],
         JObj [(''continue'', JObj [(''c'', JStr ''y'')])]]))
     = [(None, None), (Some (WStr ''x''), None), (Some (WStr ''y''), None)]"
  by code_simp+

theorem requestAndContinue_pages_witness:
  "fst (requestAndContinue [''action'' \<mapsto> PStr ''query''] no_options
          (newSession Map.empty no_options
             [continuePage ''x'', continuePage ''y'', reply 200 [] (JObj [])]))
     = ([JObj [(''continue'', JObj [(''c'', JStr ''x'')])],
         JObj [(''continue'', JObj [(''c'', JStr ''y'')])],
         JObj []], None)
   \<and> map (\<lambda>s. (sentParameter ''c'' s, sentParameter ''continue'' s))
       (calls (snd (requestAndContinue [''action'' \<mapsto> PStr ''query''] no_options
          (newSession Map.empty no_options
             [continuePage ''x'', continuePage ''y'', reply 200 [] (JObj [])]))))
     = [(None, None), (Some (WStr ''x''), None), (Some (WStr ''y''), None)]"
  using requestAndContinue_pages [THEN conjunct1, THEN mp, OF conjI [OF pages_example(2,1)]]
    pages_example(3)
  by simp

section \<open>Invariants of the session\<close>





section \<open>The user agent\<close>













lemma defaultUserAgentWarnings_flag [simp]:
  "defaultUserAgentWarnings (w\<lparr> warnedDefaultUserAgent := f \<rparr>) = defaultUserAgentWarnings w"
  by (simp add: defaultUserAgentWarnings_def)












lemma callsAdded_cong:
  "calls v = calls w \<Longrightarrow> calls v' = calls w' \<Longrightarrow> callsAdded v v' ok = callsAdded w w' ok"
  by (simp add: callsAdded_def)




















section \<open>The request combiner\<close>

lemma compatible_iff:
  "compatible ps qs \<longleftrightarrow>
     (\<forall>key v v'. map_of ps key = Some v \<and> map_of qs key = Some v' \<longrightarrow> v = v')"
proof
  assume c: "compatible ps qs"
  show "\<forall>key v v'. map_of ps key = Some v \<and> map_of qs key = Some v' \<longrightarrow> v = v'"
  proof (intro allI impI)
    fix key v v'
    assume a: "map_of ps key = Some v \<and> map_of qs key = Some v'"
    then have "key \<in> set (map fst ps)"
      by (metis map_of_eq_None_iff option.distinct(1) set_map)
    with c a show "v = v'"
      by (auto simp: compatible_def list_all_iff)
  qed
next
  assume "\<forall>key v v'. map_of ps key = Some v \<and> map_of qs key = Some v' \<longrightarrow> v = v'"
  then show "compatible ps qs"
    by (auto simp: compatible_def list_all_iff split: option.splits)
qed

lemma compatible_refl: "compatible ps ps"
  by (auto simp: compatible_iff)

lemma compatible_disjoint: "set (map fst ps) \<inter> set (map fst qs) = {} \<Longrightarrow> compatible ps qs"
proof -
  assume d: "set (map fst ps) \<inter> set (map fst qs) = {}"
  have "\<not> (map_of ps key = Some v \<and> map_of qs key = Some v')" for key v v'
  proof
    assume "map_of ps key = Some v \<and> map_of qs key = Some v'"
    then have "key \<in> set (map fst ps)" "key \<in> set (map fst qs)"
      by (metis map_of_eq_None_iff option.distinct(1) set_map)+
    with d show False by blast
  qed
  then show ?thesis unfolding compatible_iff by blast
qed

lemma map_of_unionParams: "map_of (unionParams ps qs) = map_of qs ++ map_of ps"
proof -
  have "map_of (filter (\<lambda>(key, v). map_of ps key = None) qs) key
          = (if map_of ps key = None then map_of qs key else None)" for key
    by (induction qs) auto
  then show ?thesis
    by (auto simp: unionParams_def map_add_def fun_eq_iff split: option.splits)
qed

lemma map_of_unionParams_compatible:
  "compatible ps qs \<Longrightarrow> map_of (unionParams ps qs) = map_of ps ++ map_of qs"
  by (auto simp: map_of_unionParams compatible_iff map_add_def fun_eq_iff split: option.splits)

lemma asParams_token: "asParams ps key \<noteq> Some PToken"
proof -
  have "map_of (map (\<lambda>(key, v). (key, PStr v)) ps) key \<noteq> Some PToken"
    by (induction ps) auto
  then show ?thesis by (simp add: asParams_def)
qed

lemma transformParams_asParams:
  "transformParams (asParams ps) key = map_option WStr (map_of ps key)"
proof -
  have "map_of (map (\<lambda>(key, v). (key, PStr v)) ps) key = map_option PStr (map_of ps key)"
    by (induction ps) auto
  then show ?thesis by (simp add: asParams_def transformParams_def split: option.splits)
qed

lemma plainRequest_tokenless:
  "tokenless (getOptions opts) w \<Longrightarrow> plainRequest (asParams ps) (getOptions opts) w"
  by (simp add: tokenless_def plainRequest_def Let_def asParams_token getOptions_def composed_def
      spread_def later_def option_value_def)

lemma tokenless_cong:
  "defaultOptions w' = defaultOptions w \<Longrightarrow> defaultParams w' = defaultParams w \<Longrightarrow>
   tokenless opts w' = tokenless opts w"
  by (simp add: tokenless_def composed_def)

lemma requestCall_cong:
  "defaultOptions w' = defaultOptions w \<Longrightarrow> defaultParams w' = defaultParams w \<Longrightarrow>
   requestCall ps opts w' = requestCall ps opts w"
  by (simp add: requestCall_def composed_def)

lemma request_answered:
  assumes "tokenless (getOptions opts) w" and "script w = r # rs" and "plain r"
  shows "fst (request (asParams ps) (getOptions opts) w) = Inr (body r)"
    and "script (snd (request (asParams ps) (getOptions opts) w)) = rs"
    and "calls (snd (request (asParams ps) (getOptions opts) w))
           = calls w @ [requestCall (asParams ps) (getOptions opts) w]"
    and "defaultOptions (snd (request (asParams ps) (getOptions opts) w)) = defaultOptions w"
    and "defaultParams (snd (request (asParams ps) (getOptions opts) w)) = defaultParams w"
  by (simp_all add: request_plain [OF plainRequest_tokenless [OF assms(1)] assms(2,3)]
        requestCall_def)

lemma request_rejected:
  assumes "tokenless (getOptions opts) w" and "script w = []"
  shows "fst (request (asParams ps) (getOptions opts) w) = Inl TransportError"
    and "calls (snd (request (asParams ps) (getOptions opts) w))
           = calls w @ [requestCall (asParams ps) (getOptions opts) w]"
proof -
  let ?c = "fst (prepare (asParams ps) (getOptions opts) w)"
    and ?w = "snd (prepare (asParams ps) (getOptions opts) w)"
  from assms(1) have nt: "option_value (tokenType (composed (getOptions opts) w)) None = None"
    and d: "defaultParams w (option_value (tokenName (composed (getOptions opts) w)) ''token'')
              \<noteq> Some PToken"
    by (simp_all add: tokenless_def)
  have m: "ir_method ?c = ''GET''"
    by (simp add: prepare_call getOptions_def composed_def spread_def later_def option_value_def)
  have p: "ir_params ?c = transformParams (defaultParams w ++ asParams ps
      ++ [''format'' \<mapsto> PStr ''json''])"
    by (simp add: prepare_call nt)
  have "ir_params ?c (ir_tokenName ?c) \<noteq> Some WToken"
    using d asParams_token [of ps]
    by (auto simp: p prepare_call(2) transformParams_token map_add_def split: option.splits)
  then have t: "resolveToken ?c ?w = (Inr None, ?w)"
    by (simp add: resolveToken_def)
  have s: "script ?w = []" using assms(2) by simp
  have di: "dispatch ''GET'' ps' ua ?w
      = (Inl TransportError, ?w\<lparr> calls := calls ?w @ [Get ps' ua] \<rparr>)" for ps' ua
    by (simp add: dispatch_def internalGet_def transport_def assms(2))
  have u: "request (asParams ps) (getOptions opts) w
      = (Inl TransportError, ?w\<lparr> calls := calls ?w @ [Get (ir_params ?c) (ir_userAgent ?c)] \<rparr>)"
    by (subst request_unfold, subst internalRequest_unfold) (simp add: t m di sentParams_def)
  have g: "option_value (method' (composed (getOptions opts) w)) ''undefined'' = ''GET''"
    using m by (simp add: prepare_call)
  show "fst (request (asParams ps) (getOptions opts) w) = Inl TransportError"
    by (simp add: u)
  show "calls (snd (request (asParams ps) (getOptions opts) w))
           = calls w @ [requestCall (asParams ps) (getOptions opts) w]"
    by (simp add: u requestCall_def wireCall_def g p prepare_call(4))
qed

lemma map_of_map_filter:
  "map_of (List.map_filter (\<lambda>k. map_option (Pair k) (g k)) ks) key
     = (if key \<in> set ks then g key else None)"
  by (induction ks) (auto simp: List.map_filter_simps split: option.splits)

lemma map_of_normalizeParams:
  "map_of (normalizeParams ps) key
     = (case transformParams (map_of ps) key of Some (WStr s) \<Rightarrow> Some s | _ \<Rightarrow> None)"
proof -
  let ?g = "\<lambda>k. case transformParams (map_of ps) k of Some (WStr s) \<Rightarrow> Some s | _ \<Rightarrow> None"
  have "(\<lambda>key. case transformParams (map_of ps) key of
                 Some (WStr s) \<Rightarrow> Some (key, s)
               | _ \<Rightarrow> None) = (\<lambda>k. map_option (Pair k) (?g k))"
    by (auto simp: fun_eq_iff split: option.splits wire.splits)
  then have "map_of (normalizeParams ps) key = (if key \<in> set (map fst ps) then ?g key else None)"
    by (simp add: normalizeParams_def map_of_map_filter)
  moreover have "?g key = None" if "key \<notin> set (map fst ps)"
  proof -
    from that have "map_of ps key = None" by (simp add: map_of_eq_None_iff)
    then show ?thesis by (simp add: transformParams_def)
  qed
  ultimately show ?thesis by auto
qed

lemma pendingAfter_pair:
  "pendingAfter [(a, ''GET'', ps), (b, ''GET'', qs)]
     = (if compatible (normalizeParams ps) (normalizeParams qs)
        then [\<lparr> p_method = ''GET'',
                p_params = unionParams (normalizeParams ps) (normalizeParams qs),
                p_waiters = [a, b] \<rparr>]
        else [\<lparr> p_method = ''GET'', p_params = normalizeParams ps, p_waiters = [a] \<rparr>,
              \<lparr> p_method = ''GET'', p_params = normalizeParams qs, p_waiters = [b] \<rparr>])"
  by (simp add: pendingAfter_def mergeable_def)

lemma flush_one:
  "flush opts [\<lparr> p_method = ''GET'', p_params = ps, p_waiters = cs \<rparr>] w
     = (map (\<lambda>caller. (caller, fst (request (asParams ps) (getOptions opts) w))) cs,
        snd (request (asParams ps) (getOptions opts) w))"
  by (simp add: getOptions_def split: prod.splits)

lemma flush_two:
  "flush opts [\<lparr> p_method = ''GET'', p_params = ps, p_waiters = cs \<rparr>,
               \<lparr> p_method = ''GET'', p_params = qs, p_waiters = ds \<rparr>] w
     = (map (\<lambda>caller. (caller, fst (request (asParams ps) (getOptions opts) w))) cs
        @ map (\<lambda>caller. (caller, fst (request (asParams qs) (getOptions opts)
                 (snd (request (asParams ps) (getOptions opts) w))))) ds,
        snd (request (asParams qs) (getOptions opts)
               (snd (request (asParams ps) (getOptions opts) w))))"
  by (simp add: getOptions_def split: prod.splits)

lemma turn_merged:
  assumes "compatible (normalizeParams ps) (normalizeParams qs)"
  shows "turn opts [(a, ''GET'', ps), (b, ''GET'', qs)] w
     = ([(a, fst (request (asParams (unionParams (normalizeParams ps) (normalizeParams qs)))
                    (getOptions opts) w)),
         (b, fst (request (asParams (unionParams (normalizeParams ps) (normalizeParams qs)))
                    (getOptions opts) w))],
        snd (request (asParams (unionParams (normalizeParams ps) (normalizeParams qs)))
               (getOptions opts) w))"
  unfolding turn_def pendingAfter_pair using assms by (simp only: if_True flush_one list.map)

lemma turn_separate:
  assumes "\<not> compatible (normalizeParams ps) (normalizeParams qs)"
  shows "turn opts [(a, ''GET'', ps), (b, ''GET'', qs)] w
     = ([(a, fst (request (asParams (normalizeParams ps)) (getOptions opts) w)),
         (b, fst (request (asParams (normalizeParams qs)) (getOptions opts)
                    (snd (request (asParams (normalizeParams ps)) (getOptions opts) w))))],
        snd (request (asParams (normalizeParams qs)) (getOptions opts)
               (snd (request (asParams (normalizeParams ps)) (getOptions opts) w))))"
  unfolding turn_def pendingAfter_pair using assms
  by (simp only: if_False flush_two list.map append.simps)

lemma turn_merged_answered:
  assumes "compatible (normalizeParams ps) (normalizeParams qs)"
    and "tokenless (getOptions opts) w" and "script w = r # rs" and "plain r"
  shows "fst (turn opts [(a, ''GET'', ps), (b, ''GET'', qs)] w) = [(a, Inr (body r)), (b, Inr (body r))]
    \<and> calls (snd (turn opts [(a, ''GET'', ps), (b, ''GET'', qs)] w))
        = calls w @ [requestCall (asParams (unionParams (normalizeParams ps) (normalizeParams qs)))
                       (getOptions opts) w]
    \<and> script (snd (turn opts [(a, ''GET'', ps), (b, ''GET'', qs)] w)) = rs"
  by (simp add: turn_merged [OF assms(1)] request_answered [OF assms(2,3,4)])

lemma turn_merged_rejected:
  assumes "compatible (normalizeParams ps) (normalizeParams qs)"
    and "tokenless (getOptions opts) w" and "script w = []"
  shows "fst (turn opts [(a, ''GET'', ps), (b, ''GET'', qs)] w)
           = [(a, Inl TransportError), (b, Inl TransportError)]
    \<and> calls (snd (turn opts [(a, ''GET'', ps), (b, ''GET'', qs)] w))
        = calls w @ [requestCall (asParams (unionParams (normalizeParams ps) (normalizeParams qs)))
                       (getOptions opts) w]"
  by (simp add: turn_merged [OF assms(1)] request_rejected [OF assms(2,3)])

lemma turn_separate_answered:
  assumes "\<not> compatible (normalizeParams ps) (normalizeParams qs)"
    and "tokenless (getOptions opts) w" and "script w = r1 # r2 # rs" and "plain r1" and "plain r2"
  shows "fst (turn opts [(a, ''GET'', ps), (b, ''GET'', qs)] w)
           = [(a, Inr (body r1)), (b, Inr (body r2))]
    \<and> calls (snd (turn opts [(a, ''GET'', ps), (b, ''GET'', qs)] w))
        = calls w @ [requestCall (asParams (normalizeParams ps)) (getOptions opts) w,
                     requestCall (asParams (normalizeParams qs)) (getOptions opts) w]
    \<and> script (snd (turn opts [(a, ''GET'', ps), (b, ''GET'', qs)] w)) = rs"
proof -
  let ?w1 = "snd (request (asParams (normalizeParams ps)) (getOptions opts) w)"
  note first = request_answered [OF assms(2,3,4), of "normalizeParams ps"]
  have t: "tokenless (getOptions opts) ?w1"
    using assms(2) by (simp add: tokenless_cong [OF first(4,5)])
  note second = request_answered [OF t first(2) assms(5), of "normalizeParams qs"]
  show ?thesis
    by (simp add: turn_separate [OF assms(1)] first second requestCall_cong [OF first(4,5)])
qed

text \<open>
  C9. For every pair of \<open>GET\<close> requests issued in one turn, before any I/O: the
  requests are compatible exactly when every parameter present in both has equal
  normalized string values, in particular when the parameter sets are identical or
  disjoint. Compatible requests are merged into one pending entry with both waiters,
  whose parameters are the union of the normalized parameters; it is dispatched as one
  request, and both callers receive the same outcome; when the transport answers, that
  is exactly one transport call and both receive the body of the response; when the
  transport fails, it is one call and both receive the same failure. Requests that
  conflict on a shared parameter stay two pending entries, and two answers of the
  transport mean two transport calls, each with the parameters of one request, each
  caller receiving the body of its own call.
\<close>

theorem combiner_pair:
  "(compatible (normalizeParams ps) (normalizeParams qs) \<longleftrightarrow>
      (\<forall>key v v'. map_of (normalizeParams ps) key = Some v
          \<and> map_of (normalizeParams qs) key = Some v' \<longrightarrow> v = v'))
   \<and> compatible (normalizeParams ps) (normalizeParams ps)
   \<and> (set (map fst (normalizeParams ps)) \<inter> set (map fst (normalizeParams qs)) = {} \<longrightarrow>
        compatible (normalizeParams ps) (normalizeParams qs))
   \<and> (compatible (normalizeParams ps) (normalizeParams qs) \<longrightarrow>
        pendingAfter [(a, ''GET'', ps), (b, ''GET'', qs)]
          = [\<lparr> p_method = ''GET'',
                p_params = unionParams (normalizeParams ps) (normalizeParams qs),
                p_waiters = [a, b] \<rparr>]
        \<and> map_of (unionParams (normalizeParams ps) (normalizeParams qs))
            = map_of (normalizeParams ps) ++ map_of (normalizeParams qs)
        \<and> turn opts [(a, ''GET'', ps), (b, ''GET'', qs)] w
            = ([(a, fst (request (asParams (unionParams (normalizeParams ps) (normalizeParams qs)))
                           (getOptions opts) w)),
                (b, fst (request (asParams (unionParams (normalizeParams ps) (normalizeParams qs)))
                           (getOptions opts) w))],
               snd (request (asParams (unionParams (normalizeParams ps) (normalizeParams qs)))
                      (getOptions opts) w))
        \<and> (tokenless (getOptions opts) w \<and> script w = r # rs \<and> plain r \<longrightarrow>
             fst (turn opts [(a, ''GET'', ps), (b, ''GET'', qs)] w)
               = [(a, Inr (body r)), (b, Inr (body r))]
             \<and> calls (snd (turn opts [(a, ''GET'', ps), (b, ''GET'', qs)] w))
                 = calls w @ [requestCall
                     (asParams (unionParams (normalizeParams ps) (normalizeParams qs)))
                     (getOptions opts) w])
        \<and> (tokenless (getOptions opts) w \<and> script w = [] \<longrightarrow>
             fst (turn opts [(a, ''GET'', ps), (b, ''GET'', qs)] w)
               = [(a, Inl TransportError), (b, Inl TransportError)]
             \<and> calls (snd (turn opts [(a, ''GET'', ps), (b, ''GET'', qs)] w))
                 = calls w @ [requestCall
                     (asParams (unionParams (normalizeParams ps) (normalizeParams qs)))
                     (getOptions opts) w]))
   \<and> (\<not> compatible (normalizeParams ps) (normalizeParams qs) \<longrightarrow>
        pendingAfter [(a, ''GET'', ps), (b, ''GET'', qs)]
          = [\<lparr> p_method = ''GET'', p_params = normalizeParams ps, p_waiters = [a] \<rparr>,
             \<lparr> p_method = ''GET'', p_params = normalizeParams qs, p_waiters = [b] \<rparr>]
        \<and> (tokenless (getOptions opts) w \<and> script w = r # r' # rs \<and> plain r \<and> plain r' \<longrightarrow>
             fst (turn opts [(a, ''GET'', ps), (b, ''GET'', qs)] w)
               = [(a, Inr (body r)), (b, Inr (body r'))]
             \<and> calls (snd (turn opts [(a, ''GET'', ps), (b, ''GET'', qs)] w))
                 = calls w @ [requestCall (asParams (normalizeParams ps)) (getOptions opts) w,
                              requestCall (asParams (normalizeParams qs)) (getOptions opts) w]))"
proof -
  let ?c = "compatible (normalizeParams ps) (normalizeParams qs)"
  have 1: "?c \<longleftrightarrow>
      (\<forall>key v v'. map_of (normalizeParams ps) key = Some v
          \<and> map_of (normalizeParams qs) key = Some v' \<longrightarrow> v = v')"
    by (rule compatible_iff)
  have 2: "compatible (normalizeParams ps) (normalizeParams ps)"
    by (rule compatible_refl)
  have 3: "set (map fst (normalizeParams ps)) \<inter> set (map fst (normalizeParams qs)) = {} \<longrightarrow> ?c"
    using compatible_disjoint by blast
  have 4: "?c \<longrightarrow>
        pendingAfter [(a, ''GET'', ps), (b, ''GET'', qs)]
          = [\<lparr> p_method = ''GET'',
                p_params = unionParams (normalizeParams ps) (normalizeParams qs),
                p_waiters = [a, b] \<rparr>]
        \<and> map_of (unionParams (normalizeParams ps) (normalizeParams qs))
            = map_of (normalizeParams ps) ++ map_of (normalizeParams qs)
        \<and> turn opts [(a, ''GET'', ps), (b, ''GET'', qs)] w
            = ([(a, fst (request (asParams (unionParams (normalizeParams ps) (normalizeParams qs)))
                           (getOptions opts) w)),
                (b, fst (request (asParams (unionParams (normalizeParams ps) (normalizeParams qs)))
                           (getOptions opts) w))],
               snd (request (asParams (unionParams (normalizeParams ps) (normalizeParams qs)))
                      (getOptions opts) w))"
    using turn_merged [of ps qs opts a b w] map_of_unionParams_compatible
    by (simp add: pendingAfter_pair)
  have 5: "?c \<longrightarrow> tokenless (getOptions opts) w \<and> script w = r # rs \<and> plain r \<longrightarrow>
             fst (turn opts [(a, ''GET'', ps), (b, ''GET'', qs)] w)
               = [(a, Inr (body r)), (b, Inr (body r))]
             \<and> calls (snd (turn opts [(a, ''GET'', ps), (b, ''GET'', qs)] w))
                 = calls w @ [requestCall
                     (asParams (unionParams (normalizeParams ps) (normalizeParams qs)))
                     (getOptions opts) w]"
    using turn_merged_answered [of ps qs opts w r rs a b] by blast
  have 6: "?c \<longrightarrow> tokenless (getOptions opts) w \<and> script w = [] \<longrightarrow>
             fst (turn opts [(a, ''GET'', ps), (b, ''GET'', qs)] w)
               = [(a, Inl TransportError), (b, Inl TransportError)]
             \<and> calls (snd (turn opts [(a, ''GET'', ps), (b, ''GET'', qs)] w))
                 = calls w @ [requestCall
                     (asParams (unionParams (normalizeParams ps) (normalizeParams qs)))
                     (getOptions opts) w]"
    using turn_merged_rejected [of ps qs opts w a b] by blast
  have 7: "\<not> ?c \<longrightarrow>
        pendingAfter [(a, ''GET'', ps), (b, ''GET'', qs)]
          = [\<lparr> p_method = ''GET'', p_params = normalizeParams ps, p_waiters = [a] \<rparr>,
             \<lparr> p_method = ''GET'', p_params = normalizeParams qs, p_waiters = [b] \<rparr>]"
    by (simp add: pendingAfter_pair)
  have 8: "\<not> ?c \<longrightarrow> tokenless (getOptions opts) w \<and> script w = r # r' # rs \<and> plain r \<and> plain r' \<longrightarrow>
             fst (turn opts [(a, ''GET'', ps), (b, ''GET'', qs)] w)
               = [(a, Inr (body r)), (b, Inr (body r'))]
             \<and> calls (snd (turn opts [(a, ''GET'', ps), (b, ''GET'', qs)] w))
                 = calls w @ [requestCall (asParams (normalizeParams ps)) (getOptions opts) w,
                              requestCall (asParams (normalizeParams qs)) (getOptions opts) w]"
    using turn_separate_answered [of ps qs opts w r r' rs a b] by blast
  from 1 2 3 4 5 6 7 8 show ?thesis by blast
qed

lemma normalizeParams_examples:
  "normalizeParams [(''a'', PNum (ofInt 1))] = [(''a'', ''1'')]"
  "normalizeParams [(''a'', PNum (ofInt 1)), (''b'', PNum (ofInt 2))] = [(''a'', ''1''), (''b'', ''2'')]"
  "normalizeParams [(''a'', PNum (ofInt 2))] = [(''a'', ''2'')]"
  by code_simp+

lemma tokenless_newSession: "tokenless (getOptions no_options) (newSession Map.empty no_options rs)"
  by (simp add: tokenless_def getOptions_def composed_def newSession_def no_options_def
      DEFAULT_OPTIONS_def spread_def later_def option_value_def)

theorem combiner_pair_witness:
  "fst (turn no_options [(0, ''GET'', [(''a'', PNum (ofInt 1))]), (1, ''GET'', [(''a'', PNum (ofInt 1)), (''b'', PNum (ofInt 2))])]
         (newSession Map.empty no_options [reply 200 [] (JObj [(''response'', JBool True)])]))
     = [(0, Inr (JObj [(''response'', JBool True)])), (1, Inr (JObj [(''response'', JBool True)]))]
   \<and> map (\<lambda>s. (sentParameter ''a'' s, sentParameter ''b'' s, sentParameter ''format'' s))
        (calls (snd (turn no_options
           [(0, ''GET'', [(''a'', PNum (ofInt 1))]), (1, ''GET'', [(''a'', PNum (ofInt 1)), (''b'', PNum (ofInt 2))])]
           (newSession Map.empty no_options [reply 200 [] (JObj [(''response'', JBool True)])]))))
     = [(Some (WStr ''1''), Some (WStr ''2''), Some (WStr ''json''))]
   \<and> fst (turn no_options [(0, ''GET'', [(''a'', PNum (ofInt 1))]), (1, ''GET'', [(''a'', PNum (ofInt 2))])]
         (newSession Map.empty no_options
            [reply 200 [] (JObj [(''n'', JNum (ofInt 1))]), reply 200 [] (JObj [(''n'', JNum (ofInt 2))])]))
     = [(0, Inr (JObj [(''n'', JNum (ofInt 1))])), (1, Inr (JObj [(''n'', JNum (ofInt 2))]))]
   \<and> map (sentParameter ''a'')
        (calls (snd (turn no_options [(0, ''GET'', [(''a'', PNum (ofInt 1))]), (1, ''GET'', [(''a'', PNum (ofInt 2))])]
         (newSession Map.empty no_options
            [reply 200 [] (JObj [(''n'', JNum (ofInt 1))]), reply 200 [] (JObj [(''n'', JNum (ofInt 2))])]))))
     = [Some (WStr ''1''), Some (WStr ''2'')]"
proof -
  let ?w = "newSession Map.empty no_options [reply 200 [] (JObj [(''response'', JBool True)])]"
  let ?w' = "newSession Map.empty no_options
            [reply 200 [] (JObj [(''n'', JNum (ofInt 1))]), reply 200 [] (JObj [(''n'', JNum (ofInt 2))])]"
  have c: "compatible [(''a'', ''1'')] [(''a'', ''1''), (''b'', ''2'')]"
    "\<not> compatible [(''a'', ''1'')] [(''a'', ''2'')]"
    by (simp_all add: compatible_def)
  have p: "plain (reply 200 [] (JObj [(''response'', JBool True)]))"
    "plain (reply 200 [] (JObj [(''n'', JNum (ofInt 1))]))" "plain (reply 200 [] (JObj [(''n'', JNum (ofInt 2))]))"
    by (simp_all add: plain_def reply_def)
  have s: "script ?w = reply 200 [] (JObj [(''response'', JBool True)]) # []"
    "script ?w' = reply 200 [] (JObj [(''n'', JNum (ofInt 1))]) # reply 200 [] (JObj [(''n'', JNum (ofInt 2))]) # []"
    by (simp_all add: newSession_def)
  have d: "calls (newSession Map.empty no_options rs) = []"
    "defaultParams (newSession Map.empty no_options rs) = Map.empty" for rs
    by (simp_all add: newSession_def)
  have m: "option_value (method' (composed (getOptions no_options)
      (newSession Map.empty no_options rs))) ''undefined'' = ''GET''" for rs
    by (simp add: getOptions_def composed_def spread_def later_def option_value_def)
  note merged = combiner_pair [of "[(''a'', PNum (ofInt 1))]" "[(''a'', PNum (ofInt 1)), (''b'', PNum (ofInt 2))]"
      0 1 no_options ?w "reply 200 [] (JObj [(''response'', JBool True)])" "[]",
      unfolded normalizeParams_examples,
      THEN conjunct2, THEN conjunct2, THEN conjunct2, THEN conjunct1, THEN mp, OF c(1),
      THEN conjunct2, THEN conjunct2, THEN conjunct2, THEN conjunct1, THEN mp,
      OF conjI [OF tokenless_newSession conjI [OF s(1) p(1)]]]
  note separate = combiner_pair [of "[(''a'', PNum (ofInt 1))]" "[(''a'', PNum (ofInt 2))]"
      0 1 no_options ?w' "reply 200 [] (JObj [(''n'', JNum (ofInt 1))])" "[]"
      "reply 200 [] (JObj [(''n'', JNum (ofInt 2))])",
      unfolded normalizeParams_examples,
      THEN conjunct2, THEN conjunct2, THEN conjunct2, THEN conjunct2, THEN mp, OF c(2),
      THEN conjunct2, THEN mp,
      OF conjI [OF tokenless_newSession conjI [OF s(2) conjI [OF p(2,3)]]]]
  from merged separate show ?thesis
    by (simp add: d m requestCall_def wireCall_def sentParameter_def transformParams_def
        asParams_def unionParams_def map_add_def reply_def)
qed

end
